theory Spec2Isabelle
  imports
    Main
    "HOL-Library.AList"
    "HOL-Library.Word"
    "HOL-Library.Char_ord"
    "HOL-Library.List_Lexorder"
begin

section \<open>Exceptions\<close>

text \<open>
  The command line parser declares \<open>CommandLineException\<close> (a subclass of the common
  \<open>Exception\<close>) and, through \<open>DEC_EXCEPTION\<close>, one subclass of it per kind; the git
  layer declares \<open>GitException\<close> with the libgit2 error code. An exception is a value:
  the kind of a command line exception is what the \<open>catch\<close> clauses of
  \<open>Parser::process\<close> dispatch on.
\<close>

datatype CommandLineKind =
    ToManyPositionals | UnknownOption | UnexpectedArgument | MissingRequiredArgument
  | MalformedOption | MissingPositionalArgument | InvalidOptionValue | Build

datatype Exception =
    Exception string
  | CommandLineException CommandLineKind string
  | GitException string int

text \<open>
  What can end a computation of the command line layer early: a thrown exception,
  \<open>std::exit\<close> (called by \<open>printHelp\<close> and \<open>printVersion\<close>), or undefined behaviour of the
  C++ (reading past the end of a Qt container).
\<close>

datatype Abort = Throw Exception | Exit int | Undefined

section \<open>Command line parser: data\<close>

text \<open>
  The classes \<open>Option\<close>, \<open>PositionalArgument\<close>, \<open>Command\<close> and \<open>Result\<close> are declared in
  \<open>CommandLineParser.h\<close>; the records below have the members that the parser reads. A null
  \<open>QString\<close> default value is \<open>None\<close>. The callbacks attached with \<open>then\<close> are not
  stored in the records: \<open>handle\<close> takes them as parameters.
\<close>

record Option =
  names :: "string list"
  hasArgument :: bool
  isArgumentRequired :: bool
  defaultValue :: "string option"
  allowedValues :: "string list"
  isEarlyExit :: bool

record PositionalArgument =
  arg_name :: string
  isMulti :: bool
  isOptional :: bool

datatype Command = Command
  (cmd_name: string)
  (cmd_options: "Option list")
  (cmd_arguments: "PositionalArgument list")
  (subcommands: "(string \<times> Command) list")
  (commandAliases: "(string \<times> string list) list")

record Result =
  m_options :: "(string \<times> string) list"
  m_arguments :: "(string \<times> string list) list"
  m_commandChain :: "string list"
  m_possibleOptions :: "(string \<times> Option) list"
  m_possiblePositionals :: "PositionalArgument list"

text \<open>
  A \<open>QHash\<close> or \<open>QMap\<close> is an association list with one entry per key: \<open>insert\<close> is
  \<open>AList.update\<close> (the value of an existing key is replaced), \<open>contains\<close> and \<open>value\<close> read
  through \<open>map_of\<close>, and \<open>value\<close> of a missing key is a default-constructed value. The
  iteration order of a \<open>QHash\<close> is not specified by Qt; the model iterates in the order of
  the list.
\<close>

definition contains :: "('k \<times> 'v) list \<Rightarrow> 'k \<Rightarrow> bool" where
  "contains h k = (map_of h k \<noteq> None)"

definition valueOr :: "'v \<Rightarrow> ('k \<times> 'v) list \<Rightarrow> 'k \<Rightarrow> 'v" where
  "valueOr dflt h k = (case map_of h k of None \<Rightarrow> dflt | Some v \<Rightarrow> v)"

definition defaultCommand :: Command where
  "defaultCommand = Command [] [] [] [] []"

definition defaultOption :: Option where
  "defaultOption = \<lparr>names = [], hasArgument = False, isArgumentRequired = False,
     defaultValue = None, allowedValues = [], isEarlyExit = False\<rparr>"

text \<open>Decimal numbers and \<open>join\<close>, for the messages built with \<open>QString::arg\<close>.\<close>

fun showNat :: "nat \<Rightarrow> string" where
  "showNat n = (if n < 10 then [char_of (48 + n)] else showNat (n div 10) @ [char_of (48 + n mod 10)])"

declare showNat.simps [simp del]

fun join :: "string \<Rightarrow> string list \<Rightarrow> string" where
  "join sep [] = []"
| "join sep [x] = x"
| "join sep (x # y # ys) = x @ sep @ join sep (y # ys)"

section \<open>Command line parser: \<open>Command::checkPositionals\<close>\<close>

fun requiredAfterOptional :: "bool \<Rightarrow> PositionalArgument list \<Rightarrow> bool" where
  "requiredAfterOptional haveHadOptional [] = False"
| "requiredAfterOptional haveHadOptional (arg # args) =
     (if haveHadOptional \<and> \<not> isOptional arg then True
      else if isOptional arg then requiredAfterOptional True args
      else requiredAfterOptional haveHadOptional args)"

definition checkPositionals :: "PositionalArgument list \<Rightarrow> Exception + unit" where
  "checkPositionals arguments =
     (if length arguments > 1 then
        (let exceptLast = butlast arguments in
         if list_ex isMulti exceptLast then
           Inl (CommandLineException Build ''Only the last positional argument may be multi'')
         else if isMulti (last arguments) \<and> list_ex isOptional exceptLast then
           Inl (CommandLineException Build
             ''May now have optional positional argument before multi positional argument'')
         else if requiredAfterOptional False arguments then
           Inl (CommandLineException Build
             ''May not have required positional arguments after optional ones'')
         else Inr ())
      else Inr ())"

section \<open>Command line parser: \<open>Parser::parse\<close>\<close>

text \<open>
  The local variables of \<open>Parser::parse\<close> that its lambdas capture by reference: the
  three members of the local struct \<open>result\<close>, the current command, the table of the
  options seen so far (every name of an option is a key) and the positionals.
\<close>

record ParseState =
  res_options :: "(string \<times> string) list"
  res_arguments :: "(string \<times> string list) list"
  res_commandChain :: "string list"
  currentCommand :: Command
  ps_options :: "(string \<times> Option) list"
  ps_positionals :: "PositionalArgument list"
  haveStartedPositionals :: bool

definition insertOption :: "Option \<Rightarrow> (string \<times> Option) list \<Rightarrow> (string \<times> Option) list" where
  "insertOption option table = fold (\<lambda>name. AList.update name option) (names option) table"

definition nextCommand :: "ParseState \<Rightarrow> Command \<Rightarrow> Exception + ParseState" where
  "nextCommand st command =
     (let table = fold insertOption (cmd_options command) (ps_options st);
          pos = ps_positionals st @ cmd_arguments command
      in case checkPositionals pos of
           Inl e \<Rightarrow> Inl e
         | Inr _ \<Rightarrow> Inr (st\<lparr>ps_options := table, ps_positionals := pos,
                    currentCommand := command,
                    res_commandChain := res_commandChain st @ [cmd_name command]\<rparr>))"

fun resolveAlias :: "ParseState \<Rightarrow> string list \<Rightarrow> Exception + ParseState" where
  "resolveAlias st [] = Inr st"
| "resolveAlias st (cmd # path) =
     (case nextCommand st (valueOr defaultCommand (subcommands (currentCommand st)) cmd) of
        Inl e \<Rightarrow> Inl e
      | Inr st' \<Rightarrow> resolveAlias st' path)"

text \<open>
  \<open>handleOption(name, value, hasValue, it)\<close>. The iterator argument is \<open>None\<close> for
  \<open>nullptr\<close> and otherwise the pair of \<open>it->peekPrevious()\<close> and the items still to come.
  The boolean of the result says whether \<open>it->next()\<close> was called, that is whether the
  next item was consumed as the value of the option.
\<close>

definition handleOption ::
  "ParseState \<Rightarrow> string \<Rightarrow> string \<Rightarrow> bool \<Rightarrow> (string \<times> string list) option
     \<Rightarrow> Exception + (ParseState \<times> bool)" where
  "handleOption st name value hasValue it =
     (if \<not> contains (ps_options st) name then
        Inl (CommandLineException UnknownOption (''Unknown option: --'' @ name))
      else
        let option = valueOr defaultOption (ps_options st) name in
        if hasValue \<and> \<not> hasArgument option then
          Inl (CommandLineException UnexpectedArgument
            (''Didn't expect an argument in '' @ (case it of Some (prev, _) \<Rightarrow> prev | None \<Rightarrow> name)))
        else if \<not> hasValue \<and> hasArgument option \<and> isArgumentRequired option then
          (case it of
             Some (_, next # _) \<Rightarrow>
               if take 1 next \<noteq> ''-'' then
                 Inr (st\<lparr>res_options := AList.update (hd (names option)) next (res_options st)\<rparr>, True)
               else Inl (CommandLineException MissingRequiredArgument
                      (''Missing required argument to --'' @ name))
           | _ \<Rightarrow> Inl (CommandLineException MissingRequiredArgument
                      (''Missing required argument to --'' @ name)))
        else
          Inr (st\<lparr>res_options := AList.update (hd (names option)) value (res_options st)\<rparr>, False))"

text \<open>
  \<open>handleArguments(args)\<close>. \<open>result.arguments[key].append(arg)\<close> creates the entry when the
  key is missing.
\<close>

definition addArgument :: "PositionalArgument list \<Rightarrow> string
     \<Rightarrow> (string \<times> string list) list \<Rightarrow> (string \<times> string list) list" where
  "addArgument positionals arg arguments =
     (if length positionals = length arguments then
        AList.update (arg_name (last positionals))
          (valueOr [] arguments (arg_name (last positionals)) @ [arg]) arguments
      else
        AList.update (arg_name (positionals ! length arguments)) [arg] arguments)"

definition handleArguments :: "ParseState \<Rightarrow> string list \<Rightarrow> Exception + ParseState" where
  "handleArguments st args =
     (let availablePositionals = sum_list (map (length \<circ> snd) (res_arguments st)) + length args;
          haveMulti = (ps_positionals st \<noteq> [] \<and> isMulti (last (ps_positionals st)))
      in if availablePositionals > length (ps_positionals st) \<and> \<not> haveMulti then
           Inl (CommandLineException ToManyPositionals
             (''Expected no more than '' @ showNat (length (ps_positionals st))
                @ '' positional arguments, got '' @ showNat availablePositionals))
         else
           Inr (st\<lparr>res_arguments := fold (addArgument (ps_positionals st)) args (res_arguments st),
                   haveStartedPositionals := True\<rparr>))"

text \<open>
  The two regular expressions. \<open>doubleOptionExpression\<close> is
  \<^verbatim>\<open>^--(?<name>[A-Za-z0-9-\.]+)(?<valuecont>=(?<value>.*))?$\<close> and
  \<open>singleOptionExpression\<close> is \<^verbatim>\<open>^-(?<names>[A-Za-z0-9]+)(?<valuecont>=(?<value>.*))?$\<close>.
  A dot does not match a line feed, and \<open>$\<close> matches at the end of the subject and before
  a line feed that ends it. Neither \<open>=\<close> nor the line feed is in a character class, so the
  name group is the longest prefix of class characters. The result of a match is the name
  group, the value group and whether the group \<open>valuecont\<close> is non-empty.
\<close>

definition isAlnum :: "char \<Rightarrow> bool" where
  "isAlnum c = ((CHR ''A'' \<le> c \<and> c \<le> CHR ''Z'') \<or> (CHR ''a'' \<le> c \<and> c \<le> CHR ''z'')
                 \<or> (CHR ''0'' \<le> c \<and> c \<le> CHR ''9''))"

definition isLongNameChar :: "char \<Rightarrow> bool" where
  "isLongNameChar c = (isAlnum c \<or> c = CHR ''-'' \<or> c = CHR ''.'')"

definition matchValueCont :: "string \<Rightarrow> (string \<times> bool) option" where
  "matchValueCont r =
     (if r = [] \<or> r = [CHR 0x0A] then Some ([], False)
      else if hd r = CHR ''='' then
        (let v = tl r in
         if CHR 0x0A \<notin> set v then Some (v, True)
         else if last v = CHR 0x0A \<and> CHR 0x0A \<notin> set (butlast v) then Some (butlast v, True)
         else None)
      else None)"

definition matchOption :: "(char \<Rightarrow> bool) \<Rightarrow> string \<Rightarrow> (string \<times> string \<times> bool) option" where
  "matchOption cls body =
     (let name = takeWhile cls body in
      if name = [] then None
      else case matchValueCont (dropWhile cls body) of
             None \<Rightarrow> None
           | Some (value, hasValue) \<Rightarrow> Some (name, value, hasValue))"

definition doubleOptionExpression :: "string \<Rightarrow> (string \<times> string \<times> bool) option" where
  "doubleOptionExpression item =
     (if take 2 item = ''--'' then matchOption isLongNameChar (drop 2 item) else None)"

definition singleOptionExpression :: "string \<Rightarrow> (string \<times> string \<times> bool) option" where
  "singleOptionExpression item =
     (if take 1 item = ''-'' then matchOption isAlnum (drop 1 item) else None)"

text \<open>
  \<open>items.remove(items.size() - 1)\<close>: \<open>QString\<close> has no \<open>remove(int)\<close>; the argument converts
  to a \<open>QChar\<close> (the code unit of that number), and \<open>remove(QChar)\<close> deletes every
  occurrence of that character and returns the string itself. So \<open>last\<close> is the whole of
  what is left of \<open>items\<close>, not its last character.
\<close>

definition removeQChar :: "nat \<Rightarrow> string \<Rightarrow> string" where
  "removeQChar code s = filter (\<lambda>c. (of_char c :: nat) \<noteq> code mod 65536) s"

fun handleShortOptions :: "ParseState \<Rightarrow> string \<Rightarrow> Exception + ParseState" where
  "handleShortOptions st [] = Inr st"
| "handleShortOptions st (option # items) =
     (case handleOption st [option] [] False None of
        Inl e \<Rightarrow> Inl e
      | Inr (st', _) \<Rightarrow> handleShortOptions st' items)"

fun parseLoop :: "ParseState \<Rightarrow> string list \<Rightarrow> Exception + ParseState" where
  "parseLoop st [] = Inr st"
| "parseLoop st (item # rest) =
     (if \<not> haveStartedPositionals st \<and> contains (subcommands (currentCommand st)) item then
        (case nextCommand st (valueOr defaultCommand (subcommands (currentCommand st)) item) of
           Inl e \<Rightarrow> Inl e
         | Inr st' \<Rightarrow> parseLoop st' rest)
      else if \<not> haveStartedPositionals st \<and> contains (commandAliases (currentCommand st)) item then
        (case resolveAlias st (valueOr [] (commandAliases (currentCommand st)) item) of
           Inl e \<Rightarrow> Inl e
         | Inr st' \<Rightarrow> parseLoop st' rest)
      else if item = ''--'' then handleArguments st rest
      else if take 2 item = ''--'' then
        (case doubleOptionExpression item of
           None \<Rightarrow> Inl (CommandLineException MalformedOption (''Malformed option: '' @ item))
         | Some (name, value, hasValue) \<Rightarrow>
             (case handleOption st name value hasValue (Some (item, rest)) of
                Inl e \<Rightarrow> Inl e
              | Inr (st', consumed) \<Rightarrow> parseLoop st' (if consumed then tl rest else rest)))
      else if take 1 item = ''-'' then
        (case singleOptionExpression item of
           None \<Rightarrow> Inl (CommandLineException MalformedOption (''Malformed option: '' @ item))
         | Some (captured, value, hasValue) \<Rightarrow>
             (let items = removeQChar (length captured - 1) captured; lastName = items in
              case handleShortOptions st items of
                Inl e \<Rightarrow> Inl e
              | Inr st1 \<Rightarrow>
                  (case handleOption st1 lastName value hasValue (Some (item, rest)) of
                     Inl e \<Rightarrow> Inl e
                   | Inr (st', consumed) \<Rightarrow> parseLoop st' (if consumed then tl rest else rest))))
      else
        (case handleArguments st [item] of
           Inl e \<Rightarrow> Inl e
         | Inr st' \<Rightarrow> parseLoop st' rest))"

text \<open>The loop after the arguments: every option of the table that has an argument and a
  default value, and whose first name has no value yet, gets its default under that name.\<close>

definition fillDefault :: "Option \<Rightarrow> (string \<times> string) list \<Rightarrow> (string \<times> string) list" where
  "fillDefault opt ropts =
     (if \<not> contains ropts (hd (names opt)) \<and> hasArgument opt \<and> defaultValue opt \<noteq> None
      then AList.update (hd (names opt)) (the (defaultValue opt)) ropts
      else ropts)"

definition initialState :: ParseState where
  "initialState = \<lparr>res_options = [], res_arguments = [], res_commandChain = [],
     currentCommand = defaultCommand, ps_options = [], ps_positionals = [],
     haveStartedPositionals = False\<rparr>"

text \<open>
  \<open>parse\<close> takes the parser (a \<open>Command\<close>) and the argument list. The first item is the
  application name: \<open>it.next()\<close> on an empty list reads past its end.
\<close>

definition parse :: "Command \<Rightarrow> string list \<Rightarrow> Abort + Result" where
  "parse parser arguments =
     (case nextCommand initialState parser of
        Inl e \<Rightarrow> Inl (Throw e)
      | Inr st0 \<Rightarrow>
          (case arguments of
             [] \<Rightarrow> Inl Undefined
           | application # items \<Rightarrow>
               (case parseLoop st0 items of
                  Inl e \<Rightarrow> Inl (Throw e)
                | Inr st \<Rightarrow>
                    Inr \<lparr>m_options = fold fillDefault (map snd (ps_options st)) (res_options st),
                         m_arguments = res_arguments st,
                         m_commandChain = res_commandChain st,
                         m_possibleOptions = ps_options st,
                         m_possiblePositionals = ps_positionals st\<rparr>)))"

section \<open>Command line parser: \<open>Parser::handle\<close>, \<open>printHelp\<close> and \<open>process\<close>\<close>

text \<open>
  A callback (\<open>opt.call(result)\<close>, \<open>cmd.call(result)\<close>) returns \<open>None\<close> when it returns
  normally and \<open>Some a\<close> when it throws or exits. \<open>forEach\<close> is a range-for loop whose body
  may do so: the first abort ends the loop.
\<close>

fun forEach :: "('a \<Rightarrow> Abort option) \<Rightarrow> 'a list \<Rightarrow> Abort option" where
  "forEach body [] = None"
| "forEach body (x # xs) = (case body x of Some a \<Rightarrow> Some a | None \<Rightarrow> forEach body xs)"

text \<open>The last loop of \<open>handle\<close>: walk down the command chain, calling each command.\<close>

fun callChain :: "(Command \<Rightarrow> Result \<Rightarrow> Abort option) \<Rightarrow> Result \<Rightarrow> Command \<Rightarrow> string list
     \<Rightarrow> Abort option" where
  "callChain cmdCall result cmd [] = None"
| "callChain cmdCall result cmd (command # chain) =
     (let cmd' = valueOr defaultCommand (subcommands cmd) command in
      case cmdCall cmd' result of
        Some a \<Rightarrow> Some a
      | None \<Rightarrow> callChain cmdCall result cmd' chain)"

definition handle :: "(Option \<Rightarrow> Result \<Rightarrow> Abort option) \<Rightarrow> (Command \<Rightarrow> Result \<Rightarrow> Abort option)
     \<Rightarrow> Command \<Rightarrow> Result \<Rightarrow> Abort option" where
  "handle optCall cmdCall parser result =
     (case forEach (\<lambda>option.
             let opt = valueOr defaultOption (m_possibleOptions result) option in
             if isEarlyExit opt then optCall opt result else None)
           (map fst (m_options result)) of
        Some a \<Rightarrow> Some a
      | None \<Rightarrow>
     (case forEach (\<lambda>arg.
             if \<not> contains (m_arguments result) (arg_name arg) \<and> \<not> isOptional arg then
               Some (Throw (CommandLineException MissingPositionalArgument
                 (''Missing required positional argument '' @ [CHR 0x27] @ arg_name arg @ [CHR 0x27])))
             else None)
           (m_possiblePositionals result) of
        Some a \<Rightarrow> Some a
      | None \<Rightarrow>
     (case forEach (\<lambda>option.
             let opt = valueOr defaultOption (m_possibleOptions result) option in
             if allowedValues opt \<noteq> []
                \<and> valueOr [] (m_options result) option \<notin> set (allowedValues opt) then
               Some (Throw (CommandLineException InvalidOptionValue
                 (''The value to -'' @ (if length option = 1 then ''-'' else [])
                    @ option @ '' is not allowed; valid values: ''
                    @ join '', '' (allowedValues opt))))
             else if \<not> isEarlyExit opt then optCall opt result
             else None)
           (map fst (m_options result)) of
        Some a \<Rightarrow> Some a
      | None \<Rightarrow>
          callChain cmdCall result (Command [] [] [] [(cmd_name parser, parser)] [])
            (m_commandChain result))))"

text \<open>\<open>printHelp\<close> prints the help of the command that the chain leads to, and ends with
  \<open>std::exit(0)\<close>: it does not return.\<close>

definition printHelp :: "Command \<Rightarrow> string list \<Rightarrow> Abort" where
  "printHelp parser commands = Exit 0"

text \<open>
  The \<open>try\<close> block of \<open>process(const QStringList &)\<close>, then its \<open>catch\<close> clauses in their
  order: \<open>BuildException\<close> first, then every other \<open>CommandLineException\<close> (whose handler
  calls \<open>printHelp\<close> and has no \<open>return\<close>), then every other \<open>Exception\<close>. The command
  chain of the exception is not modelled (\<open>printHelp\<close> exits whatever it is).
\<close>

definition tryBlock :: "(Option \<Rightarrow> Result \<Rightarrow> Abort option) \<Rightarrow> (Command \<Rightarrow> Result \<Rightarrow> Abort option)
     \<Rightarrow> Command \<Rightarrow> string list \<Rightarrow> Abort + int" where
  "tryBlock optCall cmdCall parser arguments =
     (case parse parser arguments of
        Inl a \<Rightarrow> Inl a
      | Inr result \<Rightarrow>
          (case handle optCall cmdCall parser result of
             Some a \<Rightarrow> Inl a
           | None \<Rightarrow>
               if m_options result = [] \<and> m_arguments result = []
                  \<and> length (m_commandChain result) = 1
               then Inl (printHelp parser [])
               else Inr 0))"

definition process :: "(Option \<Rightarrow> Result \<Rightarrow> Abort option) \<Rightarrow> (Command \<Rightarrow> Result \<Rightarrow> Abort option)
     \<Rightarrow> Command \<Rightarrow> string list \<Rightarrow> Abort + int" where
  "process optCall cmdCall parser arguments =
     (case tryBlock optCall cmdCall parser arguments of
        Inl (Throw (CommandLineException Build m)) \<Rightarrow> Inr (- 1)
      | Inl (Throw (CommandLineException k m)) \<Rightarrow> Inl (printHelp parser [])
      | Inl (Throw (Exception m)) \<Rightarrow> Inr (- 1)
      | Inl (Throw (GitException m c)) \<Rightarrow> Inr (- 1)
      | r \<Rightarrow> r)"

text \<open>
  \<open>process(int argc, char **argv)\<close>: the loop appends \<open>argv[0]\<close> in every round. Reading
  \<open>argv[0]\<close> of an empty vector is undefined.
\<close>

function argumentList :: "int \<Rightarrow> int \<Rightarrow> string list \<Rightarrow> string list \<Rightarrow> string list" where
  "argumentList i argc argv list =
     (if i < argc then argumentList (i + 1) argc argv (list @ [argv ! 0]) else list)"
  by pat_completeness auto
termination
  by (relation "measure (\<lambda>(i, argc, argv, list). nat (argc - i))") auto

declare argumentList.simps [simp del]

definition processArgv :: "(Option \<Rightarrow> Result \<Rightarrow> Abort option) \<Rightarrow> (Command \<Rightarrow> Result \<Rightarrow> Abort option)
     \<Rightarrow> Command \<Rightarrow> int \<Rightarrow> string list \<Rightarrow> Abort + int" where
  "processArgv optCall cmdCall parser argc argv =
     (if 0 < argc \<and> argv = [] then Inl Undefined
      else process optCall cmdCall parser (argumentList 0 argc argv []))"

text \<open>
  The options that a command and the commands below it declare: the options that the
  table of \<open>parse\<close> can ever hold when the parser is this command.
\<close>

fun declaredOptions :: "Command \<Rightarrow> Option list" where
  "declaredOptions (Command n opts args subs aliases) =
     opts @ concat (map (\<lambda>sub. declaredOptions (snd sub)) subs)"

text \<open>
  The invariant of the parse loop for a set \<open>D\<close> of options: the current command declares
  only options of \<open>D\<close>, the table holds only options of \<open>D\<close>, and every key of
  \<open>result.options\<close> is the first name of an option of \<open>D\<close>.
\<close>

definition parseInv :: "Option set \<Rightarrow> ParseState \<Rightarrow> bool" where
  "parseInv D st \<longleftrightarrow>
     set (declaredOptions (currentCommand st)) \<subseteq> D
     \<and> snd ` set (ps_options st) \<subseteq> D
     \<and> fst ` set (res_options st) \<subseteq> (\<lambda>opt. hd (names opt)) ` D"

subsection \<open>What the command line gives, and what the defaults give\<close>

text \<open>
  The state of \<open>parse\<close> when its \<open>while\<close> loop ends: \<open>parse\<close> is these statements, then
  the loop of the defaults and the construction of the \<open>Result\<close>.
\<close>

definition afterLoop :: "Command \<Rightarrow> string list \<Rightarrow> Abort + ParseState" where
  "afterLoop parser arguments =
     (case nextCommand initialState parser of
        Inl e \<Rightarrow> Inl (Throw e)
      | Inr st0 \<Rightarrow>
          (case arguments of
             [] \<Rightarrow> Inl Undefined
           | application # items \<Rightarrow>
               (case parseLoop st0 items of Inl e \<Rightarrow> Inl (Throw e) | Inr st \<Rightarrow> Inr st)))"

text \<open>
  The loop takes an item for an option when the item is neither a subcommand nor an alias
  that it would follow, is not \<open>--\<close>, and starts with a dash.
\<close>

definition isOption :: "ParseState \<Rightarrow> string \<Rightarrow> bool" where
  "isOption st item \<longleftrightarrow>
     \<not> (\<not> haveStartedPositionals st \<and> contains (subcommands (currentCommand st)) item)
     \<and> \<not> (\<not> haveStartedPositionals st \<and> contains (commandAliases (currentCommand st)) item)
     \<and> item \<noteq> ''--'' \<and> take 1 item = ''-''"

text \<open>
  The name, the value and the flag \<open>hasValue\<close> that the loop passes to \<open>handleOption\<close>
  together with the iterator, for an item that starts with a dash: the groups of
  \<open>doubleOptionExpression\<close>, or those of \<open>singleOptionExpression\<close> with \<open>last\<close> for the
  name.
\<close>

definition optionOf :: "string \<Rightarrow> (string \<times> string \<times> bool) option" where
  "optionOf item =
     (if take 2 item = ''--'' then doubleOptionExpression item
      else case singleOptionExpression item of
             None \<Rightarrow> None
           | Some (captured, value, hasValue) \<Rightarrow>
               Some (removeQChar (length captured - 1) captured, value, hasValue))"

text \<open>
  An item, followed by the items \<open>rest\<close>, gives the value \<open>v\<close> to the option name \<open>name\<close>
  when it is written as an option of this name and \<open>v\<close> is the value after its \<open>=\<close> (empty
  when there is none) or, when it has no \<open>=\<close>, the next item; or when it is written with
  one dash, \<open>name\<close> is one of its characters and \<open>v\<close> is empty. Items give a value to a
  name when one of them does.
\<close>

definition givenAt :: "string \<Rightarrow> string list \<Rightarrow> string \<Rightarrow> string \<Rightarrow> bool" where
  "givenAt item rest name v =
     (case optionOf item of
        None \<Rightarrow> False
      | Some (n, value, hasValue) \<Rightarrow>
          (name = n \<and> (v = value \<or> (\<not> hasValue \<and> rest \<noteq> [] \<and> v = hd rest)))
          \<or> (take 2 item \<noteq> ''--'' \<and> name \<in> (\<lambda>c. [c]) ` set n \<and> v = []))"

fun givenIn :: "string list \<Rightarrow> string \<Rightarrow> string \<Rightarrow> bool" where
  "givenIn [] name v = False"
| "givenIn (item # rest) name v = (givenAt item rest name v \<or> givenIn rest name v)"

text \<open>
  The options of a set \<open>D\<close> give a key of \<open>result.options\<close> a value from the items: the key
  is the first name of an option of \<open>D\<close>, and the items give the value to one of the names
  of this option.
\<close>

definition givenBy :: "Option set \<Rightarrow> string list \<Rightarrow> string \<Rightarrow> string \<Rightarrow> bool" where
  "givenBy D items k v \<longleftrightarrow>
     (\<exists>opt \<in> D. \<exists>name \<in> set (names opt). k = hd (names opt) \<and> givenIn items name v)"

text \<open>
  What the loop of the defaults gives a key that has no value yet: the default value of
  the first option of the table that has this first name, an argument and a default value.
\<close>

definition defaultFor :: "(string \<times> Option) list \<Rightarrow> string \<Rightarrow> string option" where
  "defaultFor table k =
     (case find (\<lambda>opt. hd (names opt) = k \<and> hasArgument opt \<and> defaultValue opt \<noteq> None)
             (map snd table) of
        None \<Rightarrow> None
      | Some opt \<Rightarrow> defaultValue opt)"

text \<open>Every key of the table is a name of the option that it leads to.\<close>

definition tableInv :: "ParseState \<Rightarrow> bool" where
  "tableInv st \<longleftrightarrow>
     (\<forall>name opt. map_of (ps_options st) name = Some opt \<longrightarrow> name \<in> set (names opt))"

text \<open>
  From one content \<open>r\<close> of \<open>result.options\<close> to a later one \<open>r'\<close>, only the items have
  given values: every key has the value that it had, or a value that the options of \<open>D\<close>
  give it from the items.
\<close>

definition givesOnly :: "Option set \<Rightarrow> string list \<Rightarrow> (string \<times> string) list
     \<Rightarrow> (string \<times> string) list \<Rightarrow> bool" where
  "givesOnly D items r r' \<longleftrightarrow>
     (\<forall>k. map_of r' k = map_of r k \<or> (\<exists>v. map_of r' k = Some v \<and> givenBy D items k v))"

subsection \<open>An example parser\<close>

text \<open>
  A parser with the shape of the command line of the program: \<open>install\<close> takes packages,
  a group (\<open>--group\<close> or \<open>-g\<close>) and has a default group; \<open>sources list\<close> takes the
  database scope.
\<close>

definition groupOption :: Option where
  "groupOption = \<lparr>names = [''group'', ''g''], hasArgument = True, isArgumentRequired = True,
     defaultValue = Some [], allowedValues = [], isEarlyExit = False\<rparr>"

definition databaseOption :: Option where
  "databaseOption = \<lparr>names = [''database'', ''d''], hasArgument = True,
     isArgumentRequired = True, defaultValue = Some ''project'',
     allowedValues = [''project'', ''user'', ''system''], isEarlyExit = False\<rparr>"

definition installCommand :: Command where
  "installCommand = Command ''install'' [groupOption]
     [\<lparr>arg_name = ''packages'', isMulti = True, isOptional = False\<rparr>] [] []"

definition sourcesCommand :: Command where
  "sourcesCommand = Command ''sources'' [databaseOption] []
     [(''list'', Command ''list'' [] [] [] [])] []"

definition exampleParser :: Command where
  "exampleParser = Command ''ralph'' [] []
     [(''install'', installCommand), (''sources'', sourcesCommand)] []"

definition exampleArguments :: "string list" where
  "exampleArguments = [''ralph'', ''install'', ''--g=dev'', ''foo'']"

definition exampleResult :: Result where
  "exampleResult = \<lparr>m_options = [(''group'', ''dev'')],
     m_arguments = [(''packages'', [''foo''])],
     m_commandChain = [''ralph'', ''install''],
     m_possibleOptions = [(''group'', groupOption), (''g'', groupOption)],
     m_possiblePositionals = [\<lparr>arg_name = ''packages'', isMulti = True, isOptional = False\<rparr>]\<rparr>"

definition exampleState :: ParseState where
  "exampleState = initialState\<lparr>ps_options := [(''group'', groupOption), (''g'', groupOption)]\<rparr>"

text \<open>
  The state of the loop after \<open>ralph install\<close>, and the result of \<open>ralph sources list\<close>.
\<close>

definition installState :: ParseState where
  "installState = \<lparr>res_options = [], res_arguments = [],
     res_commandChain = [''ralph'', ''install''], currentCommand = installCommand,
     ps_options = [(''group'', groupOption), (''g'', groupOption)],
     ps_positionals = [\<lparr>arg_name = ''packages'', isMulti = True, isOptional = False\<rparr>],
     haveStartedPositionals = False\<rparr>"

definition sourcesResult :: Result where
  "sourcesResult = \<lparr>m_options = [(''database'', ''project'')], m_arguments = [],
     m_commandChain = [''ralph'', ''sources'', ''list''],
     m_possibleOptions = [(''database'', databaseOption), (''d'', databaseOption)],
     m_possiblePositionals = []\<rparr>"

section \<open>Versions, requirements, packages and databases\<close>

text \<open>
  Modelled from the spec: the classes \<open>Version\<close>, \<open>VersionRequirement\<close>, \<open>Package\<close>,
  \<open>PackageSource\<close> and \<open>PackageDatabase\<close> are not among the sources. A version is a dotted
  numeric sequence with an optional prerelease tag. The order compares the components
  numerically, an absent component being zero; with equal components a version with a tag
  comes before the one without, and two tags compare lexicographically.
\<close>

datatype Version = Version (components: "nat list") (prerelease: "string option")

fun componentsLess :: "nat list \<Rightarrow> nat list \<Rightarrow> bool" where
  "componentsLess [] [] = False"
| "componentsLess [] (y # ys) = (0 < y \<or> (0 = y \<and> componentsLess [] ys))"
| "componentsLess (x # xs) [] = (x = 0 \<and> componentsLess xs [])"
| "componentsLess (x # xs) (y # ys) = (x < y \<or> (x = y \<and> componentsLess xs ys))"

fun tagLess :: "string option \<Rightarrow> string option \<Rightarrow> bool" where
  "tagLess (Some s) None = True"
| "tagLess (Some s) (Some t) = (s < t)"
| "tagLess None _ = False"

definition versionLess :: "Version \<Rightarrow> Version \<Rightarrow> bool" where
  "versionLess a b =
     (componentsLess (components a) (components b)
      \<or> (\<not> componentsLess (components b) (components a) \<and> tagLess (prerelease a) (prerelease b)))"

definition versionEqual :: "Version \<Rightarrow> Version \<Rightarrow> bool" where
  "versionEqual a b = (\<not> versionLess a b \<and> \<not> versionLess b a)"

text \<open>The components of a version with zeros added up to a length: the order of the
  components is the lexicographic order of the padded lists.\<close>

definition pad :: "nat \<Rightarrow> nat list \<Rightarrow> nat list" where
  "pad n xs = xs @ replicate (n - length xs) 0"

text \<open>
  Modelled from the spec: a requirement is a conjunction of an optional lower bound, an
  optional upper bound (each inclusive or exclusive) and an optional exact version; the
  empty requirement (\<open>VersionRequirement()\<close>) matches every version.
\<close>

record VersionRequirement =
  lower :: "(Version \<times> bool) option"
  upper :: "(Version \<times> bool) option"
  exact :: "Version option"

definition emptyRequirement :: VersionRequirement where
  "emptyRequirement = \<lparr>lower = None, upper = None, exact = None\<rparr>"

definition satisfies :: "VersionRequirement \<Rightarrow> Version \<Rightarrow> bool" where
  "satisfies req v =
     ((case lower req of None \<Rightarrow> True
        | Some (l, inclusive) \<Rightarrow> versionLess l v \<or> (inclusive \<and> versionEqual l v))
      \<and> (case upper req of None \<Rightarrow> True
        | Some (u, inclusive) \<Rightarrow> versionLess v u \<or> (inclusive \<and> versionEqual v u))
      \<and> (case exact req of None \<Rightarrow> True | Some e \<Rightarrow> versionEqual e v))"

record Package =
  pkg_name :: string
  pkg_version :: Version
  pkg_source :: string

record PackageSource =
  src_name :: string
  typeString :: string
  lastUpdated :: string
  packages :: "Package list"

datatype PackageDatabase = PackageDatabase
  (sources: "PackageSource list")
  (parent: "PackageDatabase option")

text \<open>
  \<open>std::sort\<close> with a comparison, as an insertion sort. \<open>std::sort\<close> does not say in
  which order it leaves elements that compare equal; this sort keeps their order.
\<close>

fun insertBy :: "('a \<Rightarrow> 'a \<Rightarrow> bool) \<Rightarrow> 'a \<Rightarrow> 'a list \<Rightarrow> 'a list" where
  "insertBy lt x [] = [x]"
| "insertBy lt x (y # ys) = (if lt y x then y # insertBy lt x ys else x # y # ys)"

definition sortBy :: "('a \<Rightarrow> 'a \<Rightarrow> bool) \<Rightarrow> 'a list \<Rightarrow> 'a list" where
  "sortBy lt xs = foldr (insertBy lt) xs []"

text \<open>
  Modelled from the spec: \<open>PackageSource::findPackages\<close> filters the packages of a source
  by the exact name and the requirement and returns them in ascending version;
  \<open>PackageDatabase::findPackages\<close> consults the chain of databases (project, user, system)
  and puts the results together. Called with a name only, it matches every version.
\<close>

definition sourceFindPackages :: "PackageSource \<Rightarrow> string \<Rightarrow> VersionRequirement \<Rightarrow> Package list" where
  "sourceFindPackages src name req =
     sortBy (\<lambda>a b. versionLess (pkg_version a) (pkg_version b))
       (filter (\<lambda>p. pkg_name p = name \<and> satisfies req (pkg_version p)) (packages src))"

fun findPackages :: "PackageDatabase \<Rightarrow> string \<Rightarrow> VersionRequirement \<Rightarrow> Package list" where
  "findPackages (PackageDatabase srcs par) name req =
     concat (map (\<lambda>src. sourceFindPackages src name req) srcs)
     @ (case par of None \<Rightarrow> [] | Some db \<Rightarrow> findPackages db name req)"

section \<open>The client functions: \<open>queryPackage\<close>\<close>

text \<open>
  \<open>QString::indexOf\<close> gives \<open>-1\<close> when the character does not occur; \<open>QString::mid(pos, n)\<close>
  gives the whole rest from \<open>pos\<close> when \<open>n\<close> is negative or larger than what is left, and
  a null string when \<open>pos\<close> is beyond the end (\<open>pos\<close> is never negative here).
\<close>

definition indexOf :: "string \<Rightarrow> char \<Rightarrow> int" where
  "indexOf s c = (if c \<in> set s then int (length (takeWhile (\<lambda>x. x \<noteq> c) s)) else - 1)"

definition mid :: "string \<Rightarrow> int \<Rightarrow> int \<Rightarrow> string" where
  "mid s pos n =
     (if pos > int (length s) then []
      else if n < 0 then drop (nat pos) s
      else take (nat n) (drop (nat pos) s))"

text \<open>
  The first three statements of \<open>queryPackage\<close>: the name is the query up to the first
  \<open>@\<close>, the requirement is parsed from what follows it. \<open>VersionRequirement::fromString\<close>
  is not among the sources and is a parameter; it may throw.
\<close>

definition queryName :: "string \<Rightarrow> string" where
  "queryName query = mid query 0 (indexOf query CHR ''@'')"

definition queryRequirement :: "(string \<Rightarrow> Exception + VersionRequirement) \<Rightarrow> string
     \<Rightarrow> Exception + VersionRequirement" where
  "queryRequirement fromString query =
     (let splitIndex = indexOf query CHR ''@'' in
      if splitIndex = - 1 then Inr emptyRequirement
      else fromString (mid query (splitIndex + 1) (- 1)))"

definition queryPackage :: "(string \<Rightarrow> Exception + VersionRequirement) \<Rightarrow> PackageDatabase \<Rightarrow> string
     \<Rightarrow> Exception + Package" where
  "queryPackage fromString db query =
     (let name = queryName query in
      case queryRequirement fromString query of
        Inl e \<Rightarrow> Inl e
      | Inr version \<Rightarrow>
          (let candidates = sortBy (\<lambda>a b. versionLess (pkg_version a) (pkg_version b))
                              (findPackages db name version)
           in if candidates = [] then
                (let haveOtherVersions = (findPackages db name emptyRequirement \<noteq> []) in
                 if haveOtherVersions then
                   Inl (Exception (''No package found for '' @ query
                                     @ '', but other versions are available''))
                 else Inl (Exception (''No package found for '' @ query)))
              else Inr (hd candidates)))"

section \<open>The client functions: \<open>State::installPackage\<close>\<close>

text \<open>
  \<open>Functional::collection(queries).map(f).each(g)\<close>: \<open>map\<close> builds the collection of the
  resolved packages before \<open>each\<close> starts, and no \<open>try\<close> surrounds either: the first
  exception of a \<open>queryPackage\<close> or of an awaited install leaves the function. The install
  of a package into the group (\<open>awaitTerminal(db->group(group).install(pkg, config))\<close>) is
  a parameter on the state of the database; a failed install leaves that state as it was.
  The result is the exception that left the function, if any, and the state then.
\<close>

fun mapQueries :: "(string \<Rightarrow> Exception + Package) \<Rightarrow> string list \<Rightarrow> Exception + Package list" where
  "mapQueries f [] = Inr []"
| "mapQueries f (query # queries) =
     (case f query of
        Inl e \<Rightarrow> Inl e
      | Inr pkg \<Rightarrow> (case mapQueries f queries of Inl e \<Rightarrow> Inl e | Inr pkgs \<Rightarrow> Inr (pkg # pkgs)))"

fun eachInstall :: "(Package \<Rightarrow> 's \<Rightarrow> Exception + 's) \<Rightarrow> Package list \<Rightarrow> 's \<Rightarrow> Exception option \<times> 's" where
  "eachInstall install [] s = (None, s)"
| "eachInstall install (pkg # pkgs) s =
     (case install pkg s of
        Inl e \<Rightarrow> (Some e, s)
      | Inr s' \<Rightarrow> eachInstall install pkgs s')"

definition installPackage :: "(string \<Rightarrow> Exception + VersionRequirement)
     \<Rightarrow> (Package \<Rightarrow> 's \<Rightarrow> Exception + 's) \<Rightarrow> PackageDatabase \<Rightarrow> string list \<Rightarrow> 's
     \<Rightarrow> Exception option \<times> 's" where
  "installPackage fromString install db queries s =
     (case mapQueries (queryPackage fromString db) queries of
        Inl e \<Rightarrow> (Some e, s)
      | Inr pkgs \<Rightarrow> eachInstall install pkgs s)"

section \<open>The client functions: \<open>State::listSources\<close>\<close>

text \<open>
  What \<open>listSources\<close> writes to the standard output, item by item (the terminal styling
  is left out): the heading of a database, one line per source, the notice of an empty
  list, and the blank line between two databases. \<open>awaitTerminal(createDatabase(type))\<close>
  is the parameter \<open>env\<close>: the database of a scope, or \<open>None\<close> for a null pointer.
  The lambda \<open>output\<close> of the source is \<open>outputDatabase\<close> here.
\<close>

datatype Printed = Heading string | SourceLine PackageSource | EmptyNotice | BlankLine

definition outputDatabase :: "(string \<Rightarrow> PackageDatabase option) \<Rightarrow> string \<Rightarrow> bool \<Rightarrow> Exception + Printed list" where
  "outputDatabase env databaseType force =
     (case env databaseType of
        None \<Rightarrow>
          if force then Inl (Exception ''Database does not exists and unable to create it'')
          else Inr []
      | Some db \<Rightarrow>
          Inr (Heading databaseType # map SourceLine (sources db)
               @ (if sources db = [] then [EmptyNotice] else [])))"

definition listSources :: "(string \<Rightarrow> PackageDatabase option) \<Rightarrow> string \<Rightarrow> Exception + Printed list" where
  "listSources env database =
     (case outputDatabase env database True of
        Inl e \<Rightarrow> Inl e
      | Inr out1 \<Rightarrow>
          (case (if database = ''project'' then
                   (case outputDatabase env ''user'' False of
                      Inl e \<Rightarrow> Inl e
                    | Inr out2 \<Rightarrow>
                        (case outputDatabase env ''system'' False of
                           Inl e \<Rightarrow> Inl e
                         | Inr out3 \<Rightarrow> Inr (out1 @ [BlankLine] @ out2 @ [BlankLine] @ out3)))
                 else Inr out1) of
             Inl e \<Rightarrow> Inl e
           | Inr out12 \<Rightarrow>
               if database = ''user'' then
                 (case outputDatabase env ''system'' False of
                    Inl e \<Rightarrow> Inl e
                  | Inr out3 \<Rightarrow> Inr (out12 @ [BlankLine] @ out3))
               else Inr out12))"

text \<open>The observations of the output: the databases whose heading was printed, and the
  sources that have a line.\<close>

fun headings :: "Printed list \<Rightarrow> string list" where
  "headings [] = []"
| "headings (Heading t # out) = t # headings out"
| "headings (_ # out) = headings out"

fun listedSources :: "Printed list \<Rightarrow> PackageSource list" where
  "listedSources [] = []"
| "listedSources (SourceLine src # out) = src # listedSources out"
| "listedSources (_ # out) = listedSources out"

text \<open>The sources of the database of a scope; a scope without a database has none.\<close>

definition sourcesOf :: "(string \<Rightarrow> PackageDatabase option) \<Rightarrow> string \<Rightarrow> PackageSource list" where
  "sourcesOf env databaseType = (case env databaseType of None \<Rightarrow> [] | Some db \<Rightarrow> sources db)"

text \<open>The heading of a scope is printed when the scope has a database.\<close>

definition present :: "(string \<Rightarrow> PackageDatabase option) \<Rightarrow> string \<Rightarrow> string list" where
  "present env t = (if env t = None then [] else [t])"

section \<open>Example data\<close>

text \<open>
  A database with one source that offers \<open>foo\<close> at 1.0, 1.2 and 2.0, a requirement
  parser defined on the requirement strings of the examples, an install that appends the
  package to the list of the installed ones, an install that fails once a package is
  installed, an environment with a database in every scope, and one in which only the
  project scope has a database.
\<close>

definition foo_1_0 :: Package where
  "foo_1_0 = \<lparr>pkg_name = ''foo'', pkg_version = Version [1, 0] None, pkg_source = ''origin''\<rparr>"

definition foo_1_2 :: Package where
  "foo_1_2 = \<lparr>pkg_name = ''foo'', pkg_version = Version [1, 2] None, pkg_source = ''origin''\<rparr>"

definition foo_2_0 :: Package where
  "foo_2_0 = \<lparr>pkg_name = ''foo'', pkg_version = Version [2, 0] None, pkg_source = ''origin''\<rparr>"

definition originSource :: PackageSource where
  "originSource = \<lparr>src_name = ''origin'', typeString = ''git'',
     lastUpdated = ''2016-05-01T12:00:00Z'', packages = [foo_2_0, foo_1_0, foo_1_2]\<rparr>"

definition fooDatabase :: PackageDatabase where
  "fooDatabase = PackageDatabase [originSource] None"

definition exampleFromString :: "string \<Rightarrow> Exception + VersionRequirement" where
  "exampleFromString s =
     (if s = ''>=1.0'' then
        Inr \<lparr>lower = Some (Version [1, 0] None, True), upper = None, exact = None\<rparr>
      else if s = ''9.9.9'' then
        Inr \<lparr>lower = None, upper = None, exact = Some (Version [9, 9, 9] None)\<rparr>
      else Inl (Exception (''Bad requirement: '' @ s)))"

definition recordInstall :: "Package \<Rightarrow> Package list \<Rightarrow> Exception + Package list" where
  "recordInstall pkg installed = Inr (installed @ [pkg])"

definition failingAfterFirst :: "Package \<Rightarrow> Package list \<Rightarrow> Exception + Package list" where
  "failingAfterFirst pkg installed =
     (if installed = [] then recordInstall pkg installed
      else Inl (GitException ''fetch failed'' (- 1)))"

definition userSource :: PackageSource where
  "userSource = \<lparr>src_name = ''mine'', typeString = ''git'',
     lastUpdated = ''2016-04-01T08:30:00Z'', packages = []\<rparr>"

definition exampleEnv :: "string \<Rightarrow> PackageDatabase option" where
  "exampleEnv databaseType =
     (if databaseType = ''project'' then Some fooDatabase
      else if databaseType = ''user'' then Some (PackageDatabase [userSource] None)
      else if databaseType = ''system'' then Some (PackageDatabase [] None)
      else None)"

definition projectOnlyEnv :: "string \<Rightarrow> PackageDatabase option" where
  "projectOnlyEnv databaseType = (if databaseType = ''project'' then Some fooDatabase else None)"

text \<open>
  The callbacks of the example parser: the \<open>install\<close> command runs \<open>installPackage\<close> on
  its positional arguments against the example database (an exception that leaves
  \<open>installPackage\<close> leaves the callback), no other command or option does anything. A
  second parser declares a multi positional argument before a required one.
\<close>

definition exampleOptCall :: "Option \<Rightarrow> Result \<Rightarrow> Abort option" where
  "exampleOptCall opt result = None"

definition exampleCmdCall :: "Command \<Rightarrow> Result \<Rightarrow> Abort option" where
  "exampleCmdCall cmd result =
     (if cmd_name cmd = ''install'' then
        (case installPackage exampleFromString recordInstall fooDatabase
                (valueOr [] (m_arguments result) ''packages'') [] of
           (Some e, _) \<Rightarrow> Some (Throw e)
         | (None, _) \<Rightarrow> None)
      else None)"

definition misbuiltParser :: Command where
  "misbuiltParser = Command ''ralph'' []
     [\<lparr>arg_name = ''packages'', isMulti = True, isOptional = False\<rparr>,
      \<lparr>arg_name = ''target'', isMulti = False, isOptional = False\<rparr>] [] []"

section \<open>Git credentials\<close>

text \<open>
  Modelled from the spec: \<open>GitCredentialQuery\<close> and \<open>GitCredentialResponse\<close> are declared in
  \<open>GitRepo.h\<close>, which is not among the sources. A query carries the allowed credential
  types, the URL and the user name of the URL. A response is \<open>Valid\<close> with the credential
  material, \<open>Invalid\<close> or \<open>Error\<close>: \<open>GitCredentialResponse(cred)\<close> with a credential is
  \<open>Valid\<close>, \<open>createInvalid()\<close> (the response of a null credential) is \<open>Invalid\<close>, and
  \<open>createError()\<close> (the default-constructed response) is \<open>Error\<close>. \<open>result()\<close> is the
  credential of a valid response and null otherwise.
\<close>

datatype CredentialType = Default | Username | UsernamePassword | SSHKey | SSHCustom | SSHInteractive

datatype git_cred =
    CredDefault
  | CredUsername string
  | CredUserpassPlaintext string string
  | CredSSHKey string string string string

record GitCredentialQuery =
  allowedTypes :: "CredentialType set"
  url :: string
  usernameFromUrl :: string

datatype GitCredentialResponse = Valid git_cred | Invalid | Error

fun response_result :: "GitCredentialResponse \<Rightarrow> git_cred option" where
  "response_result (Valid c) = Some c"
| "response_result _ = None"

fun isError :: "GitCredentialResponse \<Rightarrow> bool" where
  "isError Error = True"
| "isError _ = False"

definition createInvalid :: GitCredentialResponse where
  "createInvalid = Invalid"

definition createError :: GitCredentialResponse where
  "createError = Error"

text \<open>
  \<open>createForUsernamePassword\<close>: the constructor of libgit2 either fails (a negative
  return, the parameter \<open>failed\<close>) or yields the credential.
\<close>

definition createForUsernamePassword :: "bool \<Rightarrow> string \<Rightarrow> string \<Rightarrow> GitCredentialResponse" where
  "createForUsernamePassword failed username password =
     (if failed then createError else Valid (CredUserpassPlaintext username password))"

text \<open>
  The constants of libgit2: the bits of \<open>git_credtype_t\<close> and the error code \<open>GIT_EUSER\<close>.
\<close>

definition GIT_CREDTYPE_USERPASS_PLAINTEXT :: "32 word" where
  "GIT_CREDTYPE_USERPASS_PLAINTEXT = 1"

definition GIT_CREDTYPE_SSH_KEY :: "32 word" where
  "GIT_CREDTYPE_SSH_KEY = 2"

definition GIT_CREDTYPE_SSH_CUSTOM :: "32 word" where
  "GIT_CREDTYPE_SSH_CUSTOM = 4"

definition GIT_CREDTYPE_DEFAULT :: "32 word" where
  "GIT_CREDTYPE_DEFAULT = 8"

definition GIT_CREDTYPE_SSH_INTERACTIVE :: "32 word" where
  "GIT_CREDTYPE_SSH_INTERACTIVE = 16"

definition GIT_CREDTYPE_USERNAME :: "32 word" where
  "GIT_CREDTYPE_USERNAME = 32"

definition GIT_EUSER :: int where
  "GIT_EUSER = - 7"

text \<open>
  \<open>GitRepo::credentialsCallback\<close>. The first part translates the bits of \<open>allowedTypes\<close>
  into the types of the query; then the broker \<open>m_credentialsFunc\<close> answers, and the answer
  decides the return value and whether \<open>*out\<close> is written. The result is the return value
  and the content of \<open>*out\<close>.
\<close>

definition flag :: "32 word \<Rightarrow> 32 word \<Rightarrow> CredentialType \<Rightarrow> CredentialType set" where
  "flag allowed b t = (if and allowed b \<noteq> 0 then {t} else {})"

definition queryTypes :: "32 word \<Rightarrow> CredentialType set" where
  "queryTypes allowed =
     flag allowed GIT_CREDTYPE_DEFAULT Default
     \<union> flag allowed GIT_CREDTYPE_USERNAME Username
     \<union> flag allowed GIT_CREDTYPE_USERPASS_PLAINTEXT UsernamePassword
     \<union> flag allowed GIT_CREDTYPE_SSH_CUSTOM SSHCustom
     \<union> flag allowed GIT_CREDTYPE_SSH_INTERACTIVE SSHInteractive
     \<union> flag allowed GIT_CREDTYPE_SSH_KEY SSHKey"

definition credentialsCallback :: "(GitCredentialQuery \<Rightarrow> GitCredentialResponse) \<Rightarrow> git_cred option
     \<Rightarrow> string \<Rightarrow> string \<Rightarrow> 32 word \<Rightarrow> int \<times> git_cred option" where
  "credentialsCallback m_credentialsFunc out url' usernameFromUrl' allowed =
     (let query = \<lparr>allowedTypes = queryTypes allowed, url = url',
                    usernameFromUrl = usernameFromUrl'\<rparr>;
          response = m_credentialsFunc query
      in case response_result response of
           None \<Rightarrow> (if isError response then GIT_EUSER else 1, out)
         | Some c \<Rightarrow> (0, Some c))"

text \<open>
  The broker that \<open>State::State()\<close> registers: it asks for a user name and a password when
  the plain-text type is allowed (the two lines typed are parameters, an empty user name
  stands for the one of the URL) and answers \<open>Invalid\<close> otherwise.
\<close>

definition terminalBroker :: "string \<Rightarrow> string \<Rightarrow> bool \<Rightarrow> GitCredentialQuery \<Rightarrow> GitCredentialResponse" where
  "terminalBroker username password failed query =
     (if UsernamePassword \<in> allowedTypes query then
        createForUsernamePassword failed
          (if username = [] then usernameFromUrl query else username) password
      else createInvalid)"

section \<open>Promises\<close>

text \<open>
  \<open>BaseFutureData\<close> (declared in a header that is not among the sources) has the members
  that \<open>Promise.cpp\<close> writes: the state, the progress counters (\<open>std::size_t\<close>, 64 bits),
  the status, the exception, the promise to delegate to and the watchers. Promises live in
  a store: a promise is its index in the list of all promise data, \<open>delegateTo\<close> and the
  new promise of an \<open>async\<close> are indices, and a promise outside the list is a dangling
  pointer. A watcher is a number; the signals that the watchers receive are recorded in
  the store in the order in which they are emitted. Mutexes are not modelled: the model
  is sequential.
\<close>

datatype FutureState = StateRunning | StateFinished | StateCanceled | StateException

datatype Signal =
    started | finished | canceled
  | progress "64 word" "64 word"
  | status string
  | exception

record BaseFutureData =
  d_state :: FutureState
  progressCurrent :: "64 word"
  progressTotal :: "64 word"
  d_status :: string
  d_exception :: "Exception option"
  delegateTo :: "nat option"
  watchers :: "nat list"

record Store =
  promises :: "BaseFutureData list"
  emitted :: "(nat \<times> Signal) list"

definition lookup :: "Store \<Rightarrow> nat \<Rightarrow> BaseFutureData option" where
  "lookup st p = (if p < length (promises st) then Some (promises st ! p) else None)"

text \<open>\<open>BasePromise::report\<close>: the signal goes to every watcher of the promise.\<close>

definition report :: "Signal \<Rightarrow> BaseFutureData \<Rightarrow> Store \<Rightarrow> Store" where
  "report sig d st = st\<lparr>emitted := emitted st @ map (\<lambda>watcher. (watcher, sig)) (watchers d)\<rparr>"

text \<open>
  \<open>reportProgress\<close>, \<open>reportStatus\<close> and \<open>reportException\<close> have one shape: write the
  members under the mutex, \<open>report\<close> the signal, and call the same function with the same
  arguments on \<open>d->delegateTo\<close> if it is set. A \<open>Report\<close> is one such call with its
  arguments, \<open>writeMembers\<close> the block under the mutex, \<open>signalOf\<close> the signal. The
  recursion follows the chain of delegations, which may be cyclic: \<open>reportTo\<close> is a
  partial function, \<open>None\<close> when the chain does not end (or runs into a dangling
  pointer).
\<close>

datatype Report = Progress "64 word" "64 word" | Status string | Failure Exception

fun writeMembers :: "Report \<Rightarrow> BaseFutureData \<Rightarrow> BaseFutureData" where
  "writeMembers (Progress current total') d =
     d\<lparr>progressCurrent := current, progressTotal := total'\<rparr>"
| "writeMembers (Status message) d = d\<lparr>d_status := message\<rparr>"
| "writeMembers (Failure e) d = d\<lparr>d_exception := Some e, d_state := StateException\<rparr>"

fun signalOf :: "Report \<Rightarrow> Signal" where
  "signalOf (Progress current total') = progress current total'"
| "signalOf (Status message) = status message"
| "signalOf (Failure e) = exception"

partial_function (option) reportTo :: "Report \<Rightarrow> nat \<Rightarrow> Store \<Rightarrow> Store option" where
  "reportTo r p st =
     (case lookup st p of
        None \<Rightarrow> None
      | Some d \<Rightarrow>
          (let st' = report (signalOf r) d (st\<lparr>promises := (promises st)[p := writeMembers r d]\<rparr>)
           in case delegateTo d of
                None \<Rightarrow> Some st'
              | Some outer \<Rightarrow> reportTo r outer st'))"

declare reportTo.simps [code]

definition reportProgress :: "64 word \<Rightarrow> 64 word \<Rightarrow> nat \<Rightarrow> Store \<Rightarrow> Store option" where
  "reportProgress current total' p st = reportTo (Progress current total') p st"

definition reportStatus :: "string \<Rightarrow> nat \<Rightarrow> Store \<Rightarrow> Store option" where
  "reportStatus message p st = reportTo (Status message) p st"

definition reportException :: "Exception \<Rightarrow> nat \<Rightarrow> Store \<Rightarrow> Store option" where
  "reportException e p st = reportTo (Failure e) p st"

text \<open>\<open>reportFinished\<close> does not delegate.\<close>

definition reportFinished :: "nat \<Rightarrow> Store \<Rightarrow> Store option" where
  "reportFinished p st =
     (case lookup st p of
        None \<Rightarrow> None
      | Some d \<Rightarrow> Some (report finished d
                   (st\<lparr>promises := (promises st)[p := d\<lparr>d_state := StateFinished\<rparr>]\<rparr>)))"

text \<open>A sequence of reports on one promise, one after the other.\<close>

fun reportAll :: "Report list \<Rightarrow> nat \<Rightarrow> Store \<Rightarrow> Store option" where
  "reportAll [] p st = Some st"
| "reportAll (r # rs) p st =
     (case reportTo r p st of None \<Rightarrow> None | Some st' \<Rightarrow> reportAll rs p st')"

text \<open>A report shows in the data of a promise when the members hold its arguments.\<close>

fun shows_report :: "Report \<Rightarrow> BaseFutureData \<Rightarrow> bool" where
  "shows_report (Progress current total') d =
     (progressCurrent d = current \<and> progressTotal d = total')"
| "shows_report (Status message) d = (d_status d = message)"
| "shows_report (Failure e) d = (d_exception d = Some e \<and> d_state d = StateException)"

text \<open>The signals that the watchers of a promise receive for a report.\<close>

definition signals :: "Report \<Rightarrow> BaseFutureData \<Rightarrow> (nat \<times> Signal) list" where
  "signals r d = map (\<lambda>watcher. (watcher, signalOf r)) (watchers d)"

text \<open>A running promise without progress, status or exception.\<close>

definition newPromise :: "nat option \<Rightarrow> nat list \<Rightarrow> BaseFutureData" where
  "newPromise target ws = \<lparr>d_state = StateRunning, progressCurrent = 0, progressTotal = 0,
     d_status = [], d_exception = None, delegateTo = target, watchers = ws\<rparr>"

text \<open>
  An example store: promise 0 is watched by watcher 7 and delegates to nobody, promise 1
  is watched by watcher 3 and delegates to promise 0.
\<close>

definition exampleStore :: Store where
  "exampleStore = \<lparr>promises = [newPromise None [7], newPromise (Some 0) [3]], emitted = []\<rparr>"

definition exampleReports :: "Report list" where
  "exampleReports = [Status ''Fetching...'', Progress 1 10, Progress 10 10,
     Failure (GitException ''early EOF'' (- 1))]"

text \<open>
  The chain of delegations of a promise ends within \<open>n\<close> steps: following \<open>delegateTo\<close>
  from the promise leads, through promises of the store and after at most \<open>n\<close>
  delegations, to a promise that delegates to nobody.
\<close>

fun endsWithin :: "nat \<Rightarrow> Store \<Rightarrow> nat \<Rightarrow> bool" where
  "endsWithin 0 st p = (case lookup st p of None \<Rightarrow> False | Some d \<Rightarrow> delegateTo d = None)"
| "endsWithin (Suc n) st p =
     (case lookup st p of
        None \<Rightarrow> False
      | Some d \<Rightarrow> (case delegateTo d of None \<Rightarrow> True | Some outer \<Rightarrow> endsWithin n st outer))"

text \<open>
  A chain of three, as when \<open>update\<close> awaits \<open>pull\<close> and \<open>pull\<close> awaits \<open>fetch\<close>: promise 2
  (watched by 5) delegates to promise 1 (watched by 3), which delegates to promise 0
  (watched by 7).
\<close>

definition chainStore :: Store where
  "chainStore = \<lparr>promises = [newPromise None [7], newPromise (Some 0) [3], newPromise (Some 1) [5]],
     emitted = []\<rparr>"

section \<open>The git repository: \<open>fetch\<close>, \<open>checkout\<close> and \<open>pull\<close>\<close>

text \<open>
  A task is the closure that \<open>async\<close> runs: it gets its notifier, which is the promise of
  the task, and the store, and it ends normally or with an exception, or it does not
  return. Modelled from the spec: \<open>Notifier\<close> is not among the sources; its \<open>status\<close> and
  \<open>progress\<close> report the status string and the progress counts on the promise of the task
  (\<open>reportStatus\<close>, \<open>reportProgress\<close>).
\<close>

type_synonym Task = "nat \<Rightarrow> Store \<Rightarrow> ((Exception + unit) \<times> Store) option"

datatype PayloadState = Initial | Fetching | CheckingOut

record GitPayload =
  notifier :: nat
  pl_identifier :: string
  payload_state :: PayloadState

text \<open>
  The two callbacks that libgit2 calls during a transfer and during a checkout, with the
  counts of the call (\<open>received_objects\<close> and \<open>total_objects\<close>, or \<open>current\<close> and
  \<open>total\<close>).
\<close>

definition gitCheckoutNotifier :: "64 word \<times> 64 word \<Rightarrow> GitPayload \<Rightarrow> Store
     \<Rightarrow> (GitPayload \<times> Store) option" where
  "gitCheckoutNotifier counts pl st =
     (case (if payload_state pl \<noteq> CheckingOut
            then reportStatus (''Checking out '' @ pl_identifier pl @ ''...'') (notifier pl) st
            else Some st) of
        None \<Rightarrow> None
      | Some st1 \<Rightarrow>
          (case reportProgress (fst counts) (snd counts) (notifier pl) st1 of
             None \<Rightarrow> None
           | Some st2 \<Rightarrow> Some (pl\<lparr>payload_state := CheckingOut\<rparr>, st2)))"

definition gitFetchNotifier :: "64 word \<times> 64 word \<Rightarrow> GitPayload \<Rightarrow> Store
     \<Rightarrow> (GitPayload \<times> Store) option" where
  "gitFetchNotifier stats pl st =
     (case (if payload_state pl \<noteq> Fetching
            then reportStatus ''Fetching...'' (notifier pl) st
            else Some st) of
        None \<Rightarrow> None
      | Some st1 \<Rightarrow>
          (case reportProgress (fst stats) (snd stats) (notifier pl) st1 of
             None \<Rightarrow> None
           | Some st2 \<Rightarrow> Some (pl\<lparr>payload_state := Fetching\<rparr>, st2)))"

text \<open>
  What libgit2 does is a parameter: the return values of the calls that \<open>fetch\<close> and
  \<open>checkout\<close> make, the counts with which it calls the progress callbacks during
  \<open>git_remote_fetch\<close> and \<open>git_checkout_tree\<close>, and the message of \<open>giterr_last()\<close>.
  \<open>GitResource::create\<close> is not among the sources; it is taken to throw on a negative
  return as \<open>GitException::checkAndThrow\<close> does.
\<close>

record Libgit2 =
  remote_lookup :: int
  transfer_progress :: "(64 word \<times> 64 word) list"
  remote_fetch :: int
  revparse_single :: int
  checkout_progress :: "(64 word \<times> 64 word) list"
  checkout_tree :: int
  giterr_last :: string

definition checkAndThrow :: "Libgit2 \<Rightarrow> int \<Rightarrow> Exception + unit" where
  "checkAndThrow git error = (if error < 0 then Inl (GitException (giterr_last git) error) else Inr ())"

fun runCallbacks :: "('c \<Rightarrow> GitPayload \<Rightarrow> Store \<Rightarrow> (GitPayload \<times> Store) option) \<Rightarrow> 'c list
     \<Rightarrow> GitPayload \<Rightarrow> Store \<Rightarrow> (GitPayload \<times> Store) option" where
  "runCallbacks callback [] pl st = Some (pl, st)"
| "runCallbacks callback (c # cs) pl st =
     (case callback c pl st of
        None \<Rightarrow> None
      | Some (pl', st') \<Rightarrow> runCallbacks callback cs pl' st')"

definition fetch :: "Libgit2 \<Rightarrow> Task" where
  "fetch git n st =
     (case checkAndThrow git (remote_lookup git) of
        Inl e \<Rightarrow> Some (Inl e, st)
      | Inr _ \<Rightarrow>
          (case runCallbacks gitFetchNotifier (transfer_progress git)
                  \<lparr>notifier = n, pl_identifier = [], payload_state = Initial\<rparr> st of
             None \<Rightarrow> None
           | Some (pl, st') \<Rightarrow> Some (checkAndThrow git (remote_fetch git), st')))"

definition checkout :: "Libgit2 \<Rightarrow> string \<Rightarrow> Task" where
  "checkout git id' n st =
     (case checkAndThrow git (revparse_single git) of
        Inl e \<Rightarrow> Some (Inl e, st)
      | Inr _ \<Rightarrow>
          (case runCallbacks gitCheckoutNotifier (checkout_progress git)
                  \<lparr>notifier = n, pl_identifier = id', payload_state = Initial\<rparr> st of
             None \<Rightarrow> None
           | Some (pl, st') \<Rightarrow> Some (checkAndThrow git (checkout_tree git), st')))"

text \<open>
  Modelled from the spec: \<open>async\<close>, \<open>Future\<close> and \<open>Notifier::await\<close> are not among the
  sources. \<open>notifier.await(f())\<close>, where \<open>f()\<close> is \<open>async(task)\<close>: the subordinate task gets a
  new promise, which delegates to the promise of the awaiting notifier and has no watcher;
  the task runs to its end; its promise reports that it finished or the exception it
  threw; and \<open>await\<close> returns, or rethrows that exception in the awaiting task.
\<close>

definition await :: "nat \<Rightarrow> Task \<Rightarrow> Store \<Rightarrow> ((Exception + unit) \<times> Store) option" where
  "await n task st =
     (let sub = length (promises st);
          st0 = st\<lparr>promises := promises st @ [newPromise (Some n) []]\<rparr>
      in case task sub st0 of
           None \<Rightarrow> None
         | Some (Inr _, st1) \<Rightarrow>
             (case reportFinished sub st1 of None \<Rightarrow> None | Some st2 \<Rightarrow> Some (Inr (), st2))
         | Some (Inl e, st1) \<Rightarrow>
             (case reportException e sub st1 of None \<Rightarrow> None | Some st2 \<Rightarrow> Some (Inl e, st2)))"

text \<open>\<open>GitRepo::pull\<close>: the closure awaits \<open>fetch()\<close>, then \<open>checkout(id)\<close>; an exception
  of the first \<open>await\<close> leaves the closure.\<close>

definition pull :: "Libgit2 \<Rightarrow> string \<Rightarrow> Task" where
  "pull git id' n st =
     (case await n (fetch git) st of
        None \<Rightarrow> None
      | Some (Inl e, st1) \<Rightarrow> Some (Inl e, st1)
      | Some (Inr _, st1) \<Rightarrow> await n (checkout git id') st1)"

text \<open>
  The pull of the spec, in its words: fetch, then checkout, as one progress stream, a
  failure of a subordinate becoming the failure of the outer task. One task does the work
  of \<open>fetch\<close> and then that of \<open>checkout\<close>, both reporting on the promise of this task,
  and an exception of either is reported on this promise and ends the task.
\<close>

definition pullSpec :: "Libgit2 \<Rightarrow> string \<Rightarrow> Task" where
  "pullSpec git id' n st =
     (case fetch git n st of
        None \<Rightarrow> None
      | Some (Inl e, st1) \<Rightarrow>
          (case reportException e n st1 of None \<Rightarrow> None | Some st2 \<Rightarrow> Some (Inl e, st2))
      | Some (Inr _, st1) \<Rightarrow>
          (case checkout git id' n st1 of
             None \<Rightarrow> None
           | Some (Inl e, st2) \<Rightarrow>
               (case reportException e n st2 of None \<Rightarrow> None | Some st3 \<Rightarrow> Some (Inl e, st3))
           | Some (Inr _, st2) \<Rightarrow> Some (Inr (), st2)))"

text \<open>
  The store with further promises at its end, and the relation between the store of the
  pull of the spec and the store of \<open>GitRepo::pull\<close> while a subordinate task runs: the
  second has the promises of the subordinate tasks at its end, the last of which belongs to
  the task that runs, delegates to the outer promise and has no watcher.
\<close>

definition extend :: "Store \<Rightarrow> BaseFutureData list \<Rightarrow> Store" where
  "extend st ds = st\<lparr>promises := promises st @ ds\<rparr>"

definition subordinate :: "nat \<Rightarrow> BaseFutureData list \<Rightarrow> Store \<Rightarrow> Store \<Rightarrow> bool" where
  "subordinate outer ds s2 s1 \<longleftrightarrow>
     (\<exists>d. s1 = extend s2 (ds @ [d]) \<and> delegateTo d = Some outer \<and> watchers d = [])"

text \<open>An example run of libgit2, and one whose fetch fails after two callbacks.\<close>

definition exampleGit :: Libgit2 where
  "exampleGit = \<lparr>remote_lookup = 0, transfer_progress = [(1, 4), (4, 4)], remote_fetch = 0,
     revparse_single = 0, checkout_progress = [(0, 2), (2, 2)], checkout_tree = 0,
     giterr_last = []\<rparr>"

definition failingGit :: Libgit2 where
  "failingGit = \<lparr>remote_lookup = 0, transfer_progress = [(1, 4), (2, 4)], remote_fetch = - 1,
     revparse_single = 0, checkout_progress = [(0, 2), (2, 2)], checkout_tree = 0,
     giterr_last = ''early EOF''\<rparr>"

definition pullStore :: Store where
  "pullStore = \<lparr>promises = [newPromise None [7]], emitted = []\<rparr>"

text \<open>The chain of delegations of a promise ends at once: the promise is in the store and
  delegates to nobody.\<close>

definition endsAt :: "nat \<Rightarrow> Store \<Rightarrow> bool" where
  "endsAt p st = (case lookup st p of None \<Rightarrow> False | Some d \<Rightarrow> delegateTo d = None)"

section \<open>Theorems\<close>

lemma pad_Nil: "pad (Suc n) [] = 0 # pad n []" by (simp add: pad_def)
lemma pad_Cons: "pad (Suc n) (x # xs) = x # pad n xs" by (simp add: pad_def)

lemma componentsLess_pad:
  "length xs \<le> n \<Longrightarrow> length ys \<le> n \<Longrightarrow> componentsLess xs ys \<longleftrightarrow> pad n xs < pad n ys"
proof (induction xs ys arbitrary: n rule: componentsLess.induct)
  case 1
  then show ?case by simp
next
  case (2 y ys)
  then obtain m where n: "n = Suc m" by (cases n) auto
  with 2 show ?case by (auto simp: pad_Nil pad_Cons)
next
  case (3 x xs)
  then obtain m where n: "n = Suc m" by (cases n) auto
  with 3 show ?case by (auto simp: pad_Nil pad_Cons)
next
  case (4 x xs y ys)
  then obtain m where n: "n = Suc m" by (cases n) auto
  with 4 show ?case by (auto simp: pad_Cons)
qed

lemma tagLess_asym: "tagLess s t \<Longrightarrow> \<not> tagLess t s"
  by (cases s; cases t) auto

lemma tagLess_cotrans: "tagLess s u \<Longrightarrow> tagLess s t \<or> tagLess t u"
  by (cases s; cases t; cases u) auto

lemma versionLess_asym: "versionLess a b \<Longrightarrow> \<not> versionLess b a"
proof -
  let ?n = "max (length (components a)) (length (components b))"
  have "componentsLess (components a) (components b) \<longleftrightarrow> pad ?n (components a) < pad ?n (components b)"
    "componentsLess (components b) (components a) \<longleftrightarrow> pad ?n (components b) < pad ?n (components a)"
    by (simp_all add: componentsLess_pad)
  then show "versionLess a b \<Longrightarrow> \<not> versionLess b a"
    using tagLess_asym [of "prerelease a" "prerelease b"]
    by (auto simp: versionLess_def)
qed

lemma versionLess_cotrans:
  assumes "versionLess a c"
  shows "versionLess a b \<or> versionLess b c"
proof -
  define n where "n = max (length (components a)) (max (length (components b)) (length (components c)))"
  define A B C where "A = pad n (components a)" and "B = pad n (components b)"
    and "C = pad n (components c)"
  have l: "length (components a) \<le> n" "length (components b) \<le> n" "length (components c) \<le> n"
    by (simp_all add: n_def)
  have ab: "componentsLess (components a) (components b) \<longleftrightarrow> A < B"
    and ba: "componentsLess (components b) (components a) \<longleftrightarrow> B < A"
    and bc: "componentsLess (components b) (components c) \<longleftrightarrow> B < C"
    and cb: "componentsLess (components c) (components b) \<longleftrightarrow> C < B"
    and ac: "componentsLess (components a) (components c) \<longleftrightarrow> A < C"
    and ca: "componentsLess (components c) (components a) \<longleftrightarrow> C < A"
    unfolding A_def B_def C_def using l by (simp_all only: componentsLess_pad)
  from assms have h: "A < C \<or> (\<not> C < A \<and> tagLess (prerelease a) (prerelease c))"
    by (simp only: versionLess_def ac ca)
  have goal: "(A < B \<or> (\<not> B < A \<and> tagLess (prerelease a) (prerelease b)))
      \<or> (B < C \<or> (\<not> C < B \<and> tagLess (prerelease b) (prerelease c)))"
  proof (cases "A < B \<or> B < C")
    case True
    then show ?thesis by blast
  next
    case False
    then have 1: "B \<le> A" and 2: "C \<le> B" by (simp_all add: not_less)
    then have "C \<le> A" by (rule order_trans [rotated])
    then have "\<not> A < C" by (simp add: not_less)
    with h have 3: "\<not> C < A" and t: "tagLess (prerelease a) (prerelease c)" by blast+
    from 3 have "A \<le> C" by (simp add: not_less)
    with 1 2 have "A = B" "B = C" by (auto intro: order_antisym order_trans)
    then have "\<not> B < A" "\<not> C < B" by simp_all
    moreover from t have "tagLess (prerelease a) (prerelease b) \<or> tagLess (prerelease b) (prerelease c)"
      by (rule tagLess_cotrans)
    ultimately show ?thesis by blast
  qed
  then show ?thesis by (simp only: versionLess_def ab ba bc cb)
qed

lemma set_insertBy: "set (insertBy lt x ys) = insert x (set ys)"
  by (induction ys) auto

lemma set_sortBy: "set (sortBy lt xs) = set xs"
  by (induction xs) (simp_all add: sortBy_def set_insertBy)

lemma hd_insertBy: "hd (insertBy lt x ys) = (if ys \<noteq> [] \<and> lt (hd ys) x then hd ys else x)"
  by (cases ys) simp_all

text \<open>The first element of the sorted list: no element is below it.\<close>

lemma hd_sortBy_least:
  assumes asym: "\<And>a b. lt a b \<Longrightarrow> \<not> lt b a"
    and cotrans: "\<And>a b c. lt a c \<Longrightarrow> lt a b \<or> lt b c"
  shows "y \<in> set xs \<Longrightarrow> \<not> lt y (hd (sortBy lt xs))"
proof (induction xs arbitrary: y)
  case Nil
  then show ?case by simp
next
  case (Cons x xs)
  let ?s = "sortBy lt xs"
  have s: "sortBy lt (x # xs) = insertBy lt x ?s" by (simp add: sortBy_def)
  show ?case
  proof (cases "?s \<noteq> [] \<and> lt (hd ?s) x")
    case True
    then have h: "hd (sortBy lt (x # xs)) = hd ?s" by (simp add: s hd_insertBy)
    from True asym have "\<not> lt x (hd ?s)" by blast
    with Cons h show ?thesis by auto
  next
    case False
    then have h: "hd (sortBy lt (x # xs)) = x" by (auto simp: s hd_insertBy)
    have "\<not> lt y x" if "y \<in> set xs"
    proof
      assume "lt y x"
      from that have ne: "?s \<noteq> []" using set_sortBy [of lt xs] by auto
      from cotrans [OF \<open>lt y x\<close>, of "hd ?s"] have "lt y (hd ?s) \<or> lt (hd ?s) x" .
      with Cons.IH [OF that] False ne show False by blast
    qed
    moreover have "\<not> lt x x" using asym by blast
    ultimately show ?thesis using Cons.prems h by auto
  qed
qed

text \<open>What \<open>queryPackage\<close> returns for every database and query: a candidate, and no
  candidate has a lower version.\<close>

lemma queryPackage_returns_lowest:
  assumes "queryPackage fromString db query = Inr pkg"
  shows "\<exists>req. queryRequirement fromString query = Inr req
     \<and> pkg \<in> set (findPackages db (queryName query) req)
     \<and> (\<forall>c \<in> set (findPackages db (queryName query) req).
           \<not> versionLess (pkg_version c) (pkg_version pkg))"
proof -
  from assms obtain req where r: "queryRequirement fromString query = Inr req"
    by (auto simp: queryPackage_def Let_def split: sum.splits)
  let ?lt = "\<lambda>a b. versionLess (pkg_version a) (pkg_version b)"
  let ?cs = "findPackages db (queryName query) req"
  from assms r have ne: "sortBy ?lt ?cs \<noteq> []" and p: "pkg = hd (sortBy ?lt ?cs)"
    by (auto simp: queryPackage_def Let_def split: if_splits)
  from ne p have "pkg \<in> set (sortBy ?lt ?cs)" by simp
  then have "pkg \<in> set ?cs" by (simp add: set_sortBy)
  moreover have "\<not> ?lt c pkg" if "c \<in> set ?cs" for c
    unfolding p
  proof (rule hd_sortBy_least [of ?lt, OF _ _ that])
    show "\<not> ?lt b a" if "?lt a b" for a b
      using that by (rule versionLess_asym)
    show "?lt a b \<or> ?lt b c" if "?lt a c" for a b c
      using that by (rule versionLess_cotrans)
  qed
  ultimately show ?thesis using r by blast
qed

text \<open>
  Claim C1. The claim says that the query returns the candidate with the highest version.
  Against a source with \<open>foo\<close> at 1.0, 1.2 and 2.0, the queries \<open>foo\<close> and \<open>foo@>=1.0\<close>
  both return \<open>foo\<close> 1.0, the lowest: the candidates are sorted in ascending version and
  the first is taken.
\<close>

theorem queryPackage_returns_first_of_ascending:
  "queryPackage exampleFromString fooDatabase ''foo'' = Inr foo_1_0
   \<and> queryPackage exampleFromString fooDatabase ''foo@>=1.0'' = Inr foo_1_0
   \<and> set (findPackages fooDatabase ''foo'' emptyRequirement) = {foo_1_0, foo_1_2, foo_2_0}
   \<and> versionLess (pkg_version foo_1_0) (pkg_version foo_2_0)"
  by code_simp


lemma sortBy_Nil_iff: "sortBy lt xs = [] \<longleftrightarrow> xs = []"
proof -
  have "insertBy lt x ys \<noteq> []" for x ys by (cases ys) simp_all
  then show ?thesis by (cases xs) (simp_all add: sortBy_def)
qed

text \<open>
  Claim C2. When the requirement of the query parses and no package of that name
  satisfies it, \<open>queryPackage\<close> throws: the message says that other versions are available
  when the name exists at some version, and is the plain message when it does not. Both
  messages name the query.
\<close>

theorem queryPackage_no_candidate:
  assumes "queryRequirement fromString query = Inr req"
    and "findPackages db (queryName query) req = []"
  shows "queryPackage fromString db query =
     Inl (Exception
       (if findPackages db (queryName query) emptyRequirement \<noteq> []
        then ''No package found for '' @ query @ '', but other versions are available''
        else ''No package found for '' @ query))"
  using assms by (simp add: queryPackage_def Let_def sortBy_Nil_iff)

theorem queryPackage_no_candidate_witness:
  "queryRequirement exampleFromString ''foo@9.9.9''
     = Inr \<lparr>lower = None, upper = None, exact = Some (Version [9, 9, 9] None)\<rparr>
   \<and> findPackages fooDatabase (queryName ''foo@9.9.9'')
       \<lparr>lower = None, upper = None, exact = Some (Version [9, 9, 9] None)\<rparr> = []
   \<and> queryPackage exampleFromString fooDatabase ''foo@9.9.9''
       = Inl (Exception ''No package found for foo@9.9.9, but other versions are available'')
   \<and> queryRequirement exampleFromString ''bar'' = Inr emptyRequirement
   \<and> findPackages fooDatabase (queryName ''bar'') emptyRequirement = []
   \<and> queryPackage exampleFromString fooDatabase ''bar'' = Inl (Exception ''No package found for bar'')"
proof -
  let ?req = "\<lparr>lower = None, upper = None, exact = Some (Version [9, 9, 9] None)\<rparr>"
  have r1: "queryRequirement exampleFromString ''foo@9.9.9'' = Inr ?req" by code_simp
  have f1: "findPackages fooDatabase (queryName ''foo@9.9.9'') ?req = []" by code_simp
  have o1: "findPackages fooDatabase (queryName ''foo@9.9.9'') emptyRequirement \<noteq> []" by code_simp
  have r2: "queryRequirement exampleFromString ''bar'' = Inr emptyRequirement" by code_simp
  have f2: "findPackages fooDatabase (queryName ''bar'') emptyRequirement = []" by code_simp
  from queryPackage_no_candidate [OF r1 f1] o1
  have q1: "queryPackage exampleFromString fooDatabase ''foo@9.9.9''
       = Inl (Exception ''No package found for foo@9.9.9, but other versions are available'')"
    by simp
  from queryPackage_no_candidate [OF r2 f2] f2
  have q2: "queryPackage exampleFromString fooDatabase ''bar''
       = Inl (Exception ''No package found for bar'')"
    by simp
  from r1 f1 q1 r2 f2 q2 show ?thesis by blast
qed


lemma mapQueries_first_failure:
  "(\<forall>q' \<in> set qs1. \<exists>p. f q' = Inr p) \<Longrightarrow> f q = Inl e \<Longrightarrow> mapQueries f (qs1 @ q # qs2) = Inl e"
  by (induction qs1) auto

lemma mapQueries_all_resolved:
  "map f queries = map Inr pkgs \<Longrightarrow> mapQueries f queries = Inr pkgs"
  by (induction queries arbitrary: pkgs) auto

lemma eachInstall_first_failure:
  "eachInstall install ps1 s = (None, s1) \<Longrightarrow> install p s1 = Inl e
     \<Longrightarrow> eachInstall install (ps1 @ p # ps2) s = (Some e, s1)"
  by (induction ps1 arbitrary: s) (auto split: sum.splits)

text \<open>
  Claim C3. The claim says that after a failure the remaining packages are still
  processed. With the queries \<open>nope\<close> and \<open>foo\<close>, of which the second resolves, the
  exception of the first leaves \<open>installPackage\<close>, and \<open>foo\<close> is not installed.
\<close>

theorem installPackage_continues_counterexample:
  "queryPackage exampleFromString fooDatabase ''foo'' = Inr foo_1_0
   \<and> installPackage exampleFromString recordInstall fooDatabase [''nope'', ''foo''] []
       = (Some (Exception ''No package found for nope''), [])"
  by code_simp

text \<open>
  Claim C3, amended. \<open>installPackage\<close> stops at the first failure. When a query fails to
  resolve, and those before it resolve, the exception of that query leaves the function and
  nothing is installed. When every query resolves and an install fails, those before it
  succeeding, the exception of that install leaves the function with the packages before
  it installed and none after it.
\<close>

theorem installPackage_stops_at_first_failure:
  "((\<forall>q' \<in> set qs1. \<exists>p. queryPackage fromString db q' = Inr p)
      \<and> queryPackage fromString db q = Inl e
      \<longrightarrow> installPackage fromString install db (qs1 @ q # qs2) s = (Some e, s))
   \<and> (map (queryPackage fromString db) queries = map Inr (ps1 @ p # ps2)
      \<and> eachInstall install ps1 s = (None, s1) \<and> install p s1 = Inl e'
      \<longrightarrow> installPackage fromString install db queries s = (Some e', s1))"
proof (intro conjI impI)
  assume "(\<forall>q' \<in> set qs1. \<exists>p. queryPackage fromString db q' = Inr p)
      \<and> queryPackage fromString db q = Inl e"
  then have "mapQueries (queryPackage fromString db) (qs1 @ q # qs2) = Inl e"
    by (simp add: mapQueries_first_failure)
  then show "installPackage fromString install db (qs1 @ q # qs2) s = (Some e, s)"
    by (simp add: installPackage_def)
next
  assume a: "map (queryPackage fromString db) queries = map Inr (ps1 @ p # ps2)
      \<and> eachInstall install ps1 s = (None, s1) \<and> install p s1 = Inl e'"
  then have "mapQueries (queryPackage fromString db) queries = Inr (ps1 @ p # ps2)"
    by (intro mapQueries_all_resolved) simp
  with a show "installPackage fromString install db queries s = (Some e', s1)"
    by (simp add: installPackage_def eachInstall_first_failure)
qed

theorem installPackage_stops_at_first_failure_witness:
  "queryPackage exampleFromString fooDatabase ''foo'' = Inr foo_1_0
   \<and> queryPackage exampleFromString fooDatabase ''nope'' = Inl (Exception ''No package found for nope'')
   \<and> installPackage exampleFromString recordInstall fooDatabase ([''foo''] @ ''nope'' # [''foo'']) []
       = (Some (Exception ''No package found for nope''), [])
   \<and> map (queryPackage exampleFromString fooDatabase) [''foo'', ''foo'', ''foo'']
       = map Inr ([foo_1_0] @ foo_1_0 # [foo_1_0])
   \<and> eachInstall failingAfterFirst
         [foo_1_0] [] = (None, [foo_1_0])
   \<and> installPackage exampleFromString
         failingAfterFirst
         fooDatabase [''foo'', ''foo'', ''foo''] []
       = (Some (GitException ''fetch failed'' (- 1)), [foo_1_0])"
proof -
  have a: "queryPackage exampleFromString fooDatabase ''foo'' = Inr foo_1_0" by code_simp
  have b: "queryPackage exampleFromString fooDatabase ''nope''
      = Inl (Exception ''No package found for nope'')" by code_simp
  have c: "map (queryPackage exampleFromString fooDatabase) [''foo'', ''foo'', ''foo'']
       = map Inr ([foo_1_0] @ foo_1_0 # [foo_1_0])" using a by simp
  have d: "eachInstall failingAfterFirst [foo_1_0] [] = (None, [foo_1_0])" by (simp add: recordInstall_def failingAfterFirst_def)
  have e: "failingAfterFirst foo_1_0 [foo_1_0] = Inl (GitException ''fetch failed'' (- 1))"
    by (simp add: failingAfterFirst_def)
  note t = installPackage_stops_at_first_failure [of "[''foo'']" exampleFromString fooDatabase
      "''nope''" "Exception ''No package found for nope''" recordInstall "[''foo'']" "[]"
      "[''foo'', ''foo'', ''foo'']" "[foo_1_0]" foo_1_0 "[foo_1_0]" "[foo_1_0]"
      "GitException ''fetch failed'' (- 1)"]
  from t a b have f: "installPackage exampleFromString recordInstall fooDatabase
      ([''foo''] @ ''nope'' # [''foo'']) [] = (Some (Exception ''No package found for nope''), [])"
    by simp
  note u = installPackage_stops_at_first_failure [of "[]" exampleFromString fooDatabase
      "''nope''" "Exception ''No package found for nope''" failingAfterFirst "[]" "[]"
      "[''foo'', ''foo'', ''foo'']" "[foo_1_0]" foo_1_0 "[foo_1_0]" "[foo_1_0]"
      "GitException ''fetch failed'' (- 1)"]
  from u c d e have g: "installPackage exampleFromString failingAfterFirst fooDatabase [''foo'', ''foo'', ''foo''] []
       = (Some (GitException ''fetch failed'' (- 1)), [foo_1_0])"
    by blast
  from a b f c d g show ?thesis by blast
qed

lemma example_process_unresolved:
  "process exampleOptCall exampleCmdCall exampleParser [''ralph'', ''install'', ''nope''] = Inr (- 1)"
  by code_simp

lemma example_tryBlock_unresolved:
  "tryBlock exampleOptCall exampleCmdCall exampleParser [''ralph'', ''install'', ''nope'']
     = Inl (Throw (Exception ''No package found for nope''))"
  by code_simp

lemma example_tryBlock_success:
  "tryBlock exampleOptCall exampleCmdCall exampleParser [''ralph'', ''install'', ''foo''] = Inr 0"
  by code_simp

lemma example_tryBlock_build:
  "tryBlock exampleOptCall exampleCmdCall misbuiltParser [''ralph'']
     = Inl (Throw (CommandLineException Build ''Only the last positional argument may be multi''))"
  by code_simp

text \<open>
  Claim C4. The claim says that a user-facing failure gives the exit code 1. The
  invocation \<open>ralph install nope\<close>, whose package does not resolve, ends the \<open>try\<close> block
  with the ordinary exception of \<open>queryPackage\<close>, and \<open>process\<close> returns \<open>-1\<close>.
\<close>

theorem process_user_failure_counterexample:
  "tryBlock exampleOptCall exampleCmdCall exampleParser [''ralph'', ''install'', ''nope'']
     = Inl (Throw (Exception ''No package found for nope''))
   \<and> process exampleOptCall exampleCmdCall exampleParser [''ralph'', ''install'', ''nope''] = Inr (- 1)"
  using example_process_unresolved example_tryBlock_unresolved by simp

lemma tryBlock_Inr: "tryBlock optCall cmdCall parser arguments = Inr c \<Longrightarrow> c = 0"
  by (auto simp: tryBlock_def split: sum.splits option.splits if_splits)

text \<open>
  Claim C4, amended. \<open>process\<close> returns 0 when parsing and handling succeed, and \<open>-1\<close>
  when they throw a \<open>BuildException\<close> or an exception that is not a command line
  exception (the user-facing failures of a handler among them); it never returns 1.
\<close>

theorem process_exit_codes:
  "(tryBlock optCall cmdCall parser arguments = Inr c
      \<longrightarrow> c = 0 \<and> process optCall cmdCall parser arguments = Inr 0)
   \<and> (tryBlock optCall cmdCall parser arguments = Inl (Throw e)
        \<and> (\<forall>k m. e = CommandLineException k m \<longrightarrow> k = Build)
      \<longrightarrow> process optCall cmdCall parser arguments = Inr (- 1))
   \<and> process optCall cmdCall parser arguments \<noteq> Inr 1"
proof (intro conjI impI)
  assume "tryBlock optCall cmdCall parser arguments = Inr c"
  then show "c = 0" by (rule tryBlock_Inr)
next
  assume a: "tryBlock optCall cmdCall parser arguments = Inr c"
  then have "c = 0" by (rule tryBlock_Inr)
  with a show "process optCall cmdCall parser arguments = Inr 0" by (simp add: process_def)
next
  assume "tryBlock optCall cmdCall parser arguments = Inl (Throw e)
        \<and> (\<forall>k m. e = CommandLineException k m \<longrightarrow> k = Build)"
  then show "process optCall cmdCall parser arguments = Inr (- 1)"
    by (cases e) (auto simp: process_def split: CommandLineKind.splits)
next
  show "process optCall cmdCall parser arguments \<noteq> Inr 1"
    by (auto simp: process_def printHelp_def dest: tryBlock_Inr
          split: sum.splits Abort.splits Exception.splits CommandLineKind.splits)
qed

theorem process_exit_codes_witness:
  "tryBlock exampleOptCall exampleCmdCall exampleParser [''ralph'', ''install'', ''foo''] = Inr 0
   \<and> process exampleOptCall exampleCmdCall exampleParser [''ralph'', ''install'', ''foo''] = Inr 0
   \<and> tryBlock exampleOptCall exampleCmdCall exampleParser [''ralph'', ''install'', ''nope'']
       = Inl (Throw (Exception ''No package found for nope''))
   \<and> process exampleOptCall exampleCmdCall exampleParser [''ralph'', ''install'', ''nope''] = Inr (- 1)
   \<and> tryBlock exampleOptCall exampleCmdCall misbuiltParser [''ralph'']
       = Inl (Throw (CommandLineException Build ''Only the last positional argument may be multi''))
   \<and> process exampleOptCall exampleCmdCall misbuiltParser [''ralph''] = Inr (- 1)"
proof -
  from process_exit_codes [of exampleOptCall exampleCmdCall exampleParser
      "[''ralph'', ''install'', ''foo'']" 0] example_tryBlock_success
  have 1: "process exampleOptCall exampleCmdCall exampleParser [''ralph'', ''install'', ''foo''] = Inr 0"
    by simp
  from process_exit_codes [of exampleOptCall exampleCmdCall exampleParser
      "[''ralph'', ''install'', ''nope'']" 0 "Exception ''No package found for nope''"]
    example_tryBlock_unresolved
  have 2: "process exampleOptCall exampleCmdCall exampleParser [''ralph'', ''install'', ''nope'']
      = Inr (- 1)"
    by simp
  from process_exit_codes [of exampleOptCall exampleCmdCall misbuiltParser "[''ralph'']" 0
      "CommandLineException Build ''Only the last positional argument may be multi''"]
    example_tryBlock_build
  have 3: "process exampleOptCall exampleCmdCall misbuiltParser [''ralph''] = Inr (- 1)"
    by simp
  from 1 2 3 example_tryBlock_success example_tryBlock_unresolved example_tryBlock_build
  show ?thesis by blast
qed

lemma writeMembers_keeps [simp]:
  "delegateTo (writeMembers r d) = delegateTo d" "watchers (writeMembers r d) = watchers d"
  by (cases r; simp)+

lemma writeMembers_idem [simp]: "writeMembers r (writeMembers r d) = writeMembers r d"
  by (cases r) simp_all

lemma shows_report_writeMembers: "shows_report r (writeMembers r d)"
  by (cases r) simp_all

lemma lookup_Some: "lookup st p = Some d \<longleftrightarrow> p < length (promises st) \<and> d = promises st ! p"
  by (auto simp: lookup_def)

text \<open>What a report that returns leaves as it was.\<close>

lemma reportTo_preserves:
  assumes "reportTo r p st = Some st'"
  shows "length (promises st') = length (promises st)
     \<and> (\<forall>x < length (promises st).
           promises st' ! x = promises st ! x \<or> promises st' ! x = writeMembers r (promises st ! x))
     \<and> (\<exists>post. emitted st' = emitted st @ post)"
proof (rule reportTo.raw_induct [where P = "\<lambda>r p st st'.
     length (promises st') = length (promises st)
     \<and> (\<forall>x < length (promises st).
           promises st' ! x = promises st ! x \<or> promises st' ! x = writeMembers r (promises st ! x))
     \<and> (\<exists>post. emitted st' = emitted st @ post)", OF _ assms])
  fix reportTo' :: "Report \<Rightarrow> nat \<Rightarrow> Store \<Rightarrow> Store option" and r p st st'
  assume IH: "\<And>r p st st'. reportTo' r p st = Some st' \<Longrightarrow>
     length (promises st') = length (promises st)
     \<and> (\<forall>x < length (promises st).
           promises st' ! x = promises st ! x \<or> promises st' ! x = writeMembers r (promises st ! x))
     \<and> (\<exists>post. emitted st' = emitted st @ post)"
  assume body: "(case lookup st p of None \<Rightarrow> None
      | Some d \<Rightarrow>
          (let st1 = report (signalOf r) d (st\<lparr>promises := (promises st)[p := writeMembers r d]\<rparr>)
           in (case delegateTo d of None \<Rightarrow> Some st1 | Some outer \<Rightarrow> reportTo' r outer st1)))
      = Some st'"
  from body obtain d where d: "lookup st p = Some d"
    by (auto split: option.splits)
  let ?st1 = "report (signalOf r) d (st\<lparr>promises := (promises st)[p := writeMembers r d]\<rparr>)"
  have len: "length (promises ?st1) = length (promises st)" by (simp add: report_def)
  have em: "emitted ?st1 = emitted st @ map (\<lambda>watcher. (watcher, signalOf r)) (watchers d)"
    by (simp add: report_def)
  have el: "promises ?st1 ! x = promises st ! x \<or> promises ?st1 ! x = writeMembers r (promises st ! x)"
    if "x < length (promises st)" for x
    using d that by (cases "x = p") (auto simp: report_def lookup_Some)
  show "length (promises st') = length (promises st)
     \<and> (\<forall>x < length (promises st).
           promises st' ! x = promises st ! x \<or> promises st' ! x = writeMembers r (promises st ! x))
     \<and> (\<exists>post. emitted st' = emitted st @ post)"
  proof (cases "delegateTo d")
    case None
    with body d have "st' = ?st1" by (simp add: Let_def)
    with len em el show ?thesis by blast
  next
    case (Some outer)
    with body d have "reportTo' r outer ?st1 = Some st'" by (simp add: Let_def)
    from IH [OF this] have
      l: "length (promises st') = length (promises ?st1)"
      and e: "\<forall>x < length (promises ?st1). promises st' ! x = promises ?st1 ! x
              \<or> promises st' ! x = writeMembers r (promises ?st1 ! x)"
      and t: "\<exists>post. emitted st' = emitted ?st1 @ post"
      by blast+
    have "promises st' ! x = promises st ! x \<or> promises st' ! x = writeMembers r (promises st ! x)"
      if "x < length (promises st)" for x
    proof -
      from that len have "x < length (promises ?st1)" by simp
      with e have "promises st' ! x = promises ?st1 ! x
              \<or> promises st' ! x = writeMembers r (promises ?st1 ! x)" by blast
      with el [OF that] show ?thesis by (metis writeMembers_idem)
    qed
    moreover from t em have "\<exists>post. emitted st' = emitted st @ post" by auto
    moreover from l len have "length (promises st') = length (promises st)" by simp
    ultimately show ?thesis by blast
  qed
qed

text \<open>What a report that returns does to the promise it is called on.\<close>

lemma reportTo_target:
  assumes "reportTo r p st = Some st'" "lookup st p = Some d"
  shows "lookup st' p = Some (writeMembers r d)
     \<and> (\<exists>post. emitted st' = emitted st @ map (\<lambda>watcher. (watcher, signalOf r)) (watchers d) @ post)"
proof -
  let ?st1 = "report (signalOf r) d (st\<lparr>promises := (promises st)[p := writeMembers r d]\<rparr>)"
  from assms(2) have p: "p < length (promises st)" by (simp add: lookup_Some)
  have at: "promises ?st1 ! p = writeMembers r d" using p by (simp add: report_def)
  have len: "length (promises ?st1) = length (promises st)" by (simp add: report_def)
  have em: "emitted ?st1 = emitted st @ map (\<lambda>watcher. (watcher, signalOf r)) (watchers d)"
    by (simp add: report_def)
  show ?thesis
  proof (cases "delegateTo d")
    case None
    with assms have "st' = ?st1" by (subst (asm) reportTo.simps) (simp add: Let_def)
    with at len em p show ?thesis by (simp add: lookup_Some)
  next
    case (Some outer)
    with assms have "reportTo r outer ?st1 = Some st'"
      by (subst (asm) reportTo.simps) (simp add: Let_def)
    from reportTo_preserves [OF this] at len p em show ?thesis
      by (auto simp: lookup_Some)
  qed
qed

text \<open>One report on a promise that delegates: the effect on the promise and on its target.\<close>

lemma reportTo_delegated:
  assumes "reportTo r inner st = Some st'" "lookup st inner = Some d" "delegateTo d = Some outer"
    "lookup st outer = Some dOuter"
  shows "lookup st' inner = Some (writeMembers r d)
     \<and> lookup st' outer = Some (writeMembers r dOuter)
     \<and> (\<exists>post. emitted st' = emitted st
            @ map (\<lambda>watcher. (watcher, signalOf r)) (watchers d)
            @ map (\<lambda>watcher. (watcher, signalOf r)) (watchers dOuter) @ post)"
proof -
  let ?st1 = "report (signalOf r) d (st\<lparr>promises := (promises st)[inner := writeMembers r d]\<rparr>)"
  from assms have rec: "reportTo r outer ?st1 = Some st'"
    by (subst (asm) reportTo.simps) (simp add: Let_def)
  from assms(2,4) have i: "inner < length (promises st)" and o: "outer < length (promises st)"
    by (simp_all add: lookup_Some)
  have em: "emitted ?st1 = emitted st @ map (\<lambda>watcher. (watcher, signalOf r)) (watchers d)"
    by (simp add: report_def)
  let ?dq = "if outer = inner then writeMembers r d else dOuter"
  have lq: "lookup ?st1 outer = Some ?dq"
    using assms(2,4) i o by (auto simp: lookup_Some report_def)
  have same: "outer = inner \<Longrightarrow> dOuter = d" using assms(2,4) by simp
  from reportTo_target [OF rec lq] same em
  have 1: "lookup st' outer = Some (writeMembers r dOuter)"
    and 2: "\<exists>post. emitted st' = emitted st
            @ map (\<lambda>watcher. (watcher, signalOf r)) (watchers d)
            @ map (\<lambda>watcher. (watcher, signalOf r)) (watchers dOuter) @ post"
    by (auto split: if_splits)
  from reportTo_target [OF assms(1,2)] have "lookup st' inner = Some (writeMembers r d)" by blast
  with 1 2 show ?thesis by blast
qed

lemma reportAll_mirrored:
  "lookup st inner = Some d \<Longrightarrow> delegateTo d = Some outer \<Longrightarrow> lookup st outer = Some dOuter
     \<Longrightarrow> reportAll rs inner st = Some st'
     \<Longrightarrow> lookup st' inner = Some (fold writeMembers rs d)
       \<and> lookup st' outer = Some (fold writeMembers rs dOuter)
       \<and> (\<exists>posts. length posts = length rs
            \<and> emitted st' = emitted st
                @ concat (map (\<lambda>(r, post). signals r d @ signals r dOuter @ post) (zip rs posts)))"
proof (induction rs arbitrary: st d dOuter)
  case Nil
  then show ?case by simp
next
  case (Cons r rs)
  from Cons.prems(4) obtain st1 where
    s: "reportTo r inner st = Some st1" and a: "reportAll rs inner st1 = Some st'"
    by (auto split: option.splits)
  from reportTo_delegated [OF s Cons.prems(1,2,3)] obtain post where
    i: "lookup st1 inner = Some (writeMembers r d)"
    and o: "lookup st1 outer = Some (writeMembers r dOuter)"
    and e: "emitted st1 = emitted st @ signals r d @ signals r dOuter @ post"
    unfolding signals_def by blast
  have dl: "delegateTo (writeMembers r d) = Some outer" using Cons.prems(2) by simp
  from Cons.IH [OF i dl o a] obtain posts where
    1: "lookup st' inner = Some (fold writeMembers rs (writeMembers r d))"
    and 2: "lookup st' outer = Some (fold writeMembers rs (writeMembers r dOuter))"
    and 3: "length posts = length rs"
    and 4: "emitted st' = emitted st1
        @ concat (map (\<lambda>(r', post). signals r' (writeMembers r d) @ signals r' (writeMembers r dOuter) @ post)
                   (zip rs posts))"
    by blast
  have sg: "signals r' (writeMembers r x) = signals r' x" for r' x
    by (simp add: signals_def)
  from 3 4 e have "length (post # posts) = length (r # rs)
      \<and> emitted st' = emitted st
          @ concat (map (\<lambda>(r, post). signals r d @ signals r dOuter @ post) (zip (r # rs) (post # posts)))"
    by (simp add: sg)
  then have "\<exists>posts. length posts = length (r # rs)
      \<and> emitted st' = emitted st
          @ concat (map (\<lambda>(r, post). signals r d @ signals r dOuter @ post) (zip (r # rs) posts))"
    by blast
  with 1 2 show ?case by simp
qed

text \<open>Reports change no delegation, so the chains of the store stay as they are.\<close>

lemma endsWithin_cong:
  "length (promises st1) = length (promises st)
     \<Longrightarrow> (\<forall>x < length (promises st). delegateTo (promises st1 ! x) = delegateTo (promises st ! x))
     \<Longrightarrow> endsWithin n st1 p = endsWithin n st p"
  by (induction n arbitrary: p) (simp_all add: lookup_def split: option.splits)

lemma endsWithin_report:
  "lookup st p = Some d
     \<Longrightarrow> endsWithin n (report sig d (st\<lparr>promises := (promises st)[p := writeMembers r d]\<rparr>)) q
         = endsWithin n st q"
proof (rule endsWithin_cong)
  assume d: "lookup st p = Some d"
  show "length (promises (report sig d (st\<lparr>promises := (promises st)[p := writeMembers r d]\<rparr>)))
      = length (promises st)"
    by (simp add: report_def)
  show "\<forall>x < length (promises st).
      delegateTo (promises (report sig d (st\<lparr>promises := (promises st)[p := writeMembers r d]\<rparr>)) ! x)
        = delegateTo (promises st ! x)"
  proof (intro allI impI)
    fix x assume "x < length (promises st)"
    with d show "delegateTo (promises (report sig d (st\<lparr>promises := (promises st)[p := writeMembers r d]\<rparr>)) ! x)
        = delegateTo (promises st ! x)"
      by (cases "x = p") (auto simp: report_def lookup_Some)
  qed
qed

lemma reportTo_keeps_chains:
  assumes "reportTo r p st = Some st'"
  shows "endsWithin n st' q = endsWithin n st q"
proof (rule endsWithin_cong)
  from reportTo_preserves [OF assms] have
    l: "length (promises st') = length (promises st)"
    and e: "\<forall>x < length (promises st).
           promises st' ! x = promises st ! x \<or> promises st' ! x = writeMembers r (promises st ! x)"
    by blast+
  show "length (promises st') = length (promises st)" by (rule l)
  show "\<forall>x < length (promises st). delegateTo (promises st' ! x) = delegateTo (promises st ! x)"
  proof (intro allI impI)
    fix x assume "x < length (promises st)"
    with e have "promises st' ! x = promises st ! x
        \<or> promises st' ! x = writeMembers r (promises st ! x)" by blast
    then show "delegateTo (promises st' ! x) = delegateTo (promises st ! x)"
      by (elim disjE) simp_all
  qed
qed

text \<open>A report returns when the chain of delegations of its promise ends, and only then.\<close>

lemma reportTo_returns:
  "endsWithin n st p \<Longrightarrow> \<exists>st'. reportTo r p st = Some st'"
proof (induction n arbitrary: st p)
  case 0
  then obtain d where "lookup st p = Some d" "delegateTo d = None"
    by (auto split: option.splits)
  then show ?case by (subst reportTo.simps) (simp add: Let_def)
next
  case (Suc n)
  from Suc.prems obtain d where d: "lookup st p = Some d"
    by (auto split: option.splits)
  let ?st1 = "report (signalOf r) d (st\<lparr>promises := (promises st)[p := writeMembers r d]\<rparr>)"
  show ?case
  proof (cases "delegateTo d")
    case None
    with d show ?thesis by (subst reportTo.simps) (simp add: Let_def)
  next
    case (Some outer)
    with Suc.prems d have "endsWithin n st outer" by simp
    with d have "endsWithin n ?st1 outer" by (simp add: endsWithin_report)
    from Suc.IH [OF this] obtain st' where "reportTo r outer ?st1 = Some st'" by blast
    with d Some show ?thesis by (subst reportTo.simps) (simp add: Let_def)
  qed
qed

lemma reportTo_returns_only:
  assumes "reportTo r p st = Some st'"
  shows "\<exists>n. endsWithin n st p"
proof (rule reportTo.raw_induct [where P = "\<lambda>r p st st'. \<exists>n. endsWithin n st p", OF _ assms])
  fix reportTo' :: "Report \<Rightarrow> nat \<Rightarrow> Store \<Rightarrow> Store option" and r p st st'
  assume IH: "\<And>r p st st'. reportTo' r p st = Some st' \<Longrightarrow> \<exists>n. endsWithin n st p"
  assume body: "(case lookup st p of None \<Rightarrow> None
      | Some d \<Rightarrow>
          (let st1 = report (signalOf r) d (st\<lparr>promises := (promises st)[p := writeMembers r d]\<rparr>)
           in (case delegateTo d of None \<Rightarrow> Some st1 | Some outer \<Rightarrow> reportTo' r outer st1)))
      = Some st'"
  from body obtain d where d: "lookup st p = Some d"
    by (auto split: option.splits)
  let ?st1 = "report (signalOf r) d (st\<lparr>promises := (promises st)[p := writeMembers r d]\<rparr>)"
  show "\<exists>n. endsWithin n st p"
  proof (cases "delegateTo d")
    case None
    with d have "endsWithin 0 st p" by simp
    then show ?thesis ..
  next
    case (Some outer)
    with body d have "reportTo' r outer ?st1 = Some st'" by (simp add: Let_def)
    from IH [OF this] obtain n where "endsWithin n ?st1 outer" ..
    with d have "endsWithin n st outer" by (simp add: endsWithin_report)
    with d Some have "endsWithin (Suc n) st p" by simp
    then show ?thesis ..
  qed
qed

lemma reportAll_returns:
  "endsWithin n st p \<Longrightarrow> \<exists>st'. reportAll rs p st = Some st'"
proof (induction rs arbitrary: st)
  case Nil
  then show ?case by simp
next
  case (Cons r rs)
  from reportTo_returns [OF Cons.prems] obtain st1 where s: "reportTo r p st = Some st1" ..
  from Cons.prems have "endsWithin n st1 p" by (simp add: reportTo_keeps_chains [OF s])
  from Cons.IH [OF this] s show ?case by simp
qed

text \<open>
  Claim C5. Let a promise delegate to another whose own chain of delegations ends (it may
  itself delegate, as \<open>pull\<close> does inside \<open>update\<close>). Then every sequence of progress,
  status and failure reports on the inner promise returns, and it leaves in both promises
  the members that the reports write, one report after the other; every report sends its
  signal to the watchers of the inner promise and then the same signal, with the same
  values, to the watchers of the outer one, in the order of the reports (what follows each
  pair is what the promises further up the chain emit). The same holds of every sequence
  of reports that returns, and a report returns only when the chain of its promise ends.
\<close>

theorem delegated_reports_mirrored:
  "(lookup st inner = Some d \<and> delegateTo d = Some outer \<and> lookup st outer = Some dOuter
      \<and> endsWithin n st outer
      \<longrightarrow> (\<exists>st'. reportAll rs inner st = Some st'
             \<and> lookup st' inner = Some (fold writeMembers rs d)
             \<and> lookup st' outer = Some (fold writeMembers rs dOuter)
             \<and> (\<exists>posts. length posts = length rs
                  \<and> emitted st' = emitted st
                      @ concat (map (\<lambda>(r, post). signals r d @ signals r dOuter @ post) (zip rs posts)))))
   \<and> (lookup st inner = Some d \<and> delegateTo d = Some outer \<and> lookup st outer = Some dOuter
      \<and> reportAll rs inner st = Some st'
      \<longrightarrow> lookup st' inner = Some (fold writeMembers rs d)
        \<and> lookup st' outer = Some (fold writeMembers rs dOuter)
        \<and> (\<exists>posts. length posts = length rs
             \<and> emitted st' = emitted st
                 @ concat (map (\<lambda>(r, post). signals r d @ signals r dOuter @ post) (zip rs posts))))
   \<and> (reportTo r p st = Some st' \<longrightarrow> (\<exists>n. endsWithin n st p))"
proof -
  have total: "lookup st inner = Some d \<and> delegateTo d = Some outer \<and> lookup st outer = Some dOuter
      \<and> endsWithin n st outer
      \<longrightarrow> (\<exists>st'. reportAll rs inner st = Some st'
             \<and> lookup st' inner = Some (fold writeMembers rs d)
             \<and> lookup st' outer = Some (fold writeMembers rs dOuter)
             \<and> (\<exists>posts. length posts = length rs
                  \<and> emitted st' = emitted st
                      @ concat (map (\<lambda>(r, post). signals r d @ signals r dOuter @ post) (zip rs posts))))"
  proof
    assume a: "lookup st inner = Some d \<and> delegateTo d = Some outer \<and> lookup st outer = Some dOuter
      \<and> endsWithin n st outer"
    then have "endsWithin (Suc n) st inner" by simp
    from reportAll_returns [OF this] obtain st1 where r: "reportAll rs inner st = Some st1" ..
    from a have "lookup st inner = Some d" "delegateTo d = Some outer" "lookup st outer = Some dOuter"
      by blast+
    from reportAll_mirrored [OF this r] r
    show "\<exists>st'. reportAll rs inner st = Some st'
             \<and> lookup st' inner = Some (fold writeMembers rs d)
             \<and> lookup st' outer = Some (fold writeMembers rs dOuter)
             \<and> (\<exists>posts. length posts = length rs
                  \<and> emitted st' = emitted st
                      @ concat (map (\<lambda>(r, post). signals r d @ signals r dOuter @ post) (zip rs posts)))"
      by blast
  qed
  have partial: "lookup st inner = Some d \<and> delegateTo d = Some outer \<and> lookup st outer = Some dOuter
      \<and> reportAll rs inner st = Some st'
      \<longrightarrow> lookup st' inner = Some (fold writeMembers rs d)
        \<and> lookup st' outer = Some (fold writeMembers rs dOuter)
        \<and> (\<exists>posts. length posts = length rs
             \<and> emitted st' = emitted st
                 @ concat (map (\<lambda>(r, post). signals r d @ signals r dOuter @ post) (zip rs posts)))"
    using reportAll_mirrored [of st inner d outer dOuter rs st'] by blast
  have only: "reportTo r p st = Some st' \<longrightarrow> (\<exists>n. endsWithin n st p)"
    using reportTo_returns_only [of r p st st'] by blast
  from total partial only show ?thesis by (intro conjI)
qed

theorem delegated_reports_mirrored_witness:
  "lookup chainStore 2 = Some (newPromise (Some 1) [5])
   \<and> delegateTo (newPromise (Some 1) [5]) = Some 1
   \<and> lookup chainStore 1 = Some (newPromise (Some 0) [3])
   \<and> delegateTo (newPromise (Some 0) [3]) = Some 0
   \<and> endsWithin 1 chainStore 1
   \<and> (\<exists>st'. reportAll exampleReports 2 chainStore = Some st'
         \<and> lookup st' 2 = Some (fold writeMembers exampleReports (newPromise (Some 1) [5]))
         \<and> lookup st' 1 = Some (fold writeMembers exampleReports (newPromise (Some 0) [3]))
         \<and> (\<exists>posts. length posts = length exampleReports
              \<and> emitted st' = emitted chainStore
                  @ concat (map (\<lambda>(r, post). signals r (newPromise (Some 1) [5])
                                    @ signals r (newPromise (Some 0) [3]) @ post)
                             (zip exampleReports posts))))
   \<and> fold writeMembers exampleReports (newPromise (Some 0) [3])
       = \<lparr>d_state = StateException, progressCurrent = 10, progressTotal = 10,
          d_status = ''Fetching...'', d_exception = Some (GitException ''early EOF'' (- 1)),
          delegateTo = Some 0, watchers = [3]\<rparr>
   \<and> (\<exists>st'. reportTo (Status ''Fetching...'') 2 chainStore = Some st')
   \<and> (\<exists>n. endsWithin n chainStore 2)
   \<and> endsWithin 0 exampleStore 0
   \<and> (\<exists>st'. reportAll exampleReports 1 exampleStore = Some st'
         \<and> lookup st' 1 = Some (fold writeMembers exampleReports (newPromise (Some 0) [3]))
         \<and> lookup st' 0 = Some (fold writeMembers exampleReports (newPromise None [7])))"
proof -
  have i: "lookup chainStore 2 = Some (newPromise (Some 1) [5])"
    and o: "lookup chainStore 1 = Some (newPromise (Some 0) [3])"
    by (simp_all add: lookup_def chainStore_def)
  have di: "delegateTo (newPromise (Some 1) [5]) = Some 1"
    and dO: "delegateTo (newPromise (Some 0) [3]) = Some 0"
    by (simp_all add: newPromise_def)
  have e: "endsWithin 1 chainStore 1"
    by (simp add: lookup_def chainStore_def newPromise_def)
  have f: "fold writeMembers exampleReports (newPromise (Some 0) [3])
       = \<lparr>d_state = StateException, progressCurrent = 10, progressTotal = 10,
          d_status = ''Fetching...'', d_exception = Some (GitException ''early EOF'' (- 1)),
          delegateTo = Some 0, watchers = [3]\<rparr>"
    by (simp add: exampleReports_def newPromise_def)
  note t = delegated_reports_mirrored [of chainStore 2 "newPromise (Some 1) [5]" 1
      "newPromise (Some 0) [3]" 1 exampleReports]
  from t i di o e have total:
    "\<exists>st'. reportAll exampleReports 2 chainStore = Some st'
         \<and> lookup st' 2 = Some (fold writeMembers exampleReports (newPromise (Some 1) [5]))
         \<and> lookup st' 1 = Some (fold writeMembers exampleReports (newPromise (Some 0) [3]))
         \<and> (\<exists>posts. length posts = length exampleReports
              \<and> emitted st' = emitted chainStore
                  @ concat (map (\<lambda>(r, post). signals r (newPromise (Some 1) [5])
                                    @ signals r (newPromise (Some 0) [3]) @ post)
                             (zip exampleReports posts)))"
    by blast
  have "reportTo (Status ''Fetching...'') 2 chainStore \<noteq> None"
    by code_simp
  then obtain st1 where r: "reportTo (Status ''Fetching...'') 2 chainStore = Some st1"
    by blast
  from t [of _ "Status ''Fetching...''" 2] r have only: "\<exists>n. endsWithin n chainStore 2"
    by blast
  have i2: "lookup exampleStore 1 = Some (newPromise (Some 0) [3])"
    and o2: "lookup exampleStore 0 = Some (newPromise None [7])"
    by (simp_all add: lookup_def exampleStore_def)
  have e2: "endsWithin 0 exampleStore 0"
    by (simp add: lookup_def exampleStore_def newPromise_def)
  note t2 = delegated_reports_mirrored [of exampleStore 1 "newPromise (Some 0) [3]" 0
      "newPromise None [7]" 0 exampleReports]
  from t2 i2 dO o2 e2 obtain st2 where
    r2: "reportAll exampleReports 1 exampleStore = Some st2" by blast
  from t2 [of st2] i2 dO o2 r2 have
    "lookup st2 1 = Some (fold writeMembers exampleReports (newPromise (Some 0) [3]))
     \<and> lookup st2 0 = Some (fold writeMembers exampleReports (newPromise None [7]))"
    by blast
  with r2 have two: "\<exists>st'. reportAll exampleReports 1 exampleStore = Some st'
         \<and> lookup st' 1 = Some (fold writeMembers exampleReports (newPromise (Some 0) [3]))
         \<and> lookup st' 0 = Some (fold writeMembers exampleReports (newPromise None [7]))"
    by blast
  from r have ex: "\<exists>st'. reportTo (Status ''Fetching...'') 2 chainStore = Some st'" by blast
  from i di o dO e total f ex only e2 two show ?thesis by (intro conjI)
qed

lemma example_reportAll:
  "reportAll exampleReports 1 exampleStore = Some
     \<lparr>promises =
        [\<lparr>d_state = StateException, progressCurrent = 10, progressTotal = 10,
           d_status = ''Fetching...'', d_exception = Some (GitException ''early EOF'' (- 1)),
           delegateTo = None, watchers = [7]\<rparr>,
         \<lparr>d_state = StateException, progressCurrent = 10, progressTotal = 10,
           d_status = ''Fetching...'', d_exception = Some (GitException ''early EOF'' (- 1)),
           delegateTo = Some 0, watchers = [3]\<rparr>],
      emitted =
        [(3, status ''Fetching...''), (7, status ''Fetching...''),
         (3, progress 1 10), (7, progress 1 10), (3, progress 10 10),
         (7, progress 10 10), (3, exception), (7, exception)]\<rparr>"
  by code_simp

lemma example_chain_reportAll:
  "reportAll [Status ''Fetching...'', Progress 1 10] 2 chainStore = Some
     \<lparr>promises =
        [\<lparr>d_state = StateRunning, progressCurrent = 1, progressTotal = 10,
           d_status = ''Fetching...'', d_exception = None,
           delegateTo = None, watchers = [7]\<rparr>,
         \<lparr>d_state = StateRunning, progressCurrent = 1, progressTotal = 10,
           d_status = ''Fetching...'', d_exception = None,
           delegateTo = Some 0, watchers = [3]\<rparr>,
         \<lparr>d_state = StateRunning, progressCurrent = 1, progressTotal = 10,
           d_status = ''Fetching...'', d_exception = None,
           delegateTo = Some 1, watchers = [5]\<rparr>],
      emitted =
        [(5, status ''Fetching...''), (3, status ''Fetching...''), (7, status ''Fetching...''),
         (5, progress 1 10), (3, progress 1 10), (7, progress 1 10)]\<rparr>"
  by code_simp

lemma extend_simps [simp]:
  "promises (extend s ds) = promises s @ ds" "emitted (extend s ds) = emitted s"
  "extend (extend s ds) ds' = extend s (ds @ ds')" "extend s [] = s"
  by (simp_all add: extend_def)

lemma extend_report: "p < length (promises s) \<Longrightarrow>
    report sig d (extend s ds\<lparr>promises := (promises (extend s ds))[p := x]\<rparr>)
      = extend (report sig d (s\<lparr>promises := (promises s)[p := x]\<rparr>)) ds"
  by (simp add: extend_def report_def list_update_append1)

text \<open>Promises at the end of the store that the chain does not reach stay as they are.\<close>

lemma reportTo_extend:
  assumes "reportTo r q s = Some s'"
  shows "reportTo r q (extend s ds) = Some (extend s' ds)"
proof (rule reportTo.raw_induct [where P = "\<lambda>r q s s'.
     reportTo r q (extend s ds) = Some (extend s' ds)", OF _ assms])
  fix reportTo' :: "Report \<Rightarrow> nat \<Rightarrow> Store \<Rightarrow> Store option" and r q s s'
  assume IH: "\<And>r q s s'. reportTo' r q s = Some s' \<Longrightarrow>
     reportTo r q (extend s ds) = Some (extend s' ds)"
  assume body: "(case lookup s q of None \<Rightarrow> None
      | Some d \<Rightarrow>
          (let st1 = report (signalOf r) d (s\<lparr>promises := (promises s)[q := writeMembers r d]\<rparr>)
           in (case delegateTo d of None \<Rightarrow> Some st1 | Some outer \<Rightarrow> reportTo' r outer st1)))
      = Some s'"
  from body obtain d where d: "lookup s q = Some d"
    by (auto split: option.splits)
  then have q: "q < length (promises s)" and dq: "d = promises s ! q"
    by (simp_all add: lookup_Some)
  then have le: "lookup (extend s ds) q = Some d"
    by (simp add: lookup_def nth_append)
  let ?st1 = "report (signalOf r) d (s\<lparr>promises := (promises s)[q := writeMembers r d]\<rparr>)"
  show "reportTo r q (extend s ds) = Some (extend s' ds)"
  proof (cases "delegateTo d")
    case None
    with body d have "s' = ?st1" by (simp add: Let_def)
    with None le q show ?thesis
      by (subst reportTo.simps) (simp add: Let_def extend_report del: extend_simps)
  next
    case (Some outer)
    with body d have "reportTo' r outer ?st1 = Some s'" by (simp add: Let_def)
    from IH [OF this] Some le q show ?thesis
      by (subst reportTo.simps) (simp add: Let_def extend_report del: extend_simps)
  qed
qed

lemma reportTo_length: "reportTo r p st = Some st' \<Longrightarrow> length (promises st') = length (promises st)"
  using reportTo_preserves by blast

text \<open>A report on the promise of the running subordinate task does to the outer promise
  and to the watchers what the same report on the outer promise does.\<close>

lemma reportTo_subordinate:
  assumes "subordinate outer ds s2 s1" "reportTo r outer s2 = Some s2'"
  shows "\<exists>s1'. reportTo r (length (promises s2) + length ds) s1 = Some s1'
           \<and> subordinate outer ds s2' s1'"
proof -
  from assms(1) obtain d where s1: "s1 = extend s2 (ds @ [d])"
    and d: "delegateTo d = Some outer" "watchers d = []"
    by (auto simp: subordinate_def)
  let ?sub = "length (promises s2) + length ds"
  have l: "lookup s1 ?sub = Some d" by (simp add: s1 lookup_def nth_append)
  have "report (signalOf r) d (s1\<lparr>promises := (promises s1)[?sub := writeMembers r d]\<rparr>)
      = extend s2 (ds @ [writeMembers r d])"
    using d by (simp add: s1 report_def extend_def list_update_append)
  moreover from reportTo_extend [OF assms(2)]
  have "reportTo r outer (extend s2 (ds @ [writeMembers r d])) = Some (extend s2' (ds @ [writeMembers r d]))" .
  ultimately have "reportTo r ?sub s1 = Some (extend s2' (ds @ [writeMembers r d]))"
    using l d by (subst reportTo.simps) (simp add: Let_def)
  moreover have "subordinate outer ds s2' (extend s2' (ds @ [writeMembers r d]))"
    using d by (auto simp: subordinate_def)
  ultimately show ?thesis by blast
qed


text \<open>The same for the two callbacks, for the loop over the callbacks, and for the tasks.\<close>

lemma gitFetchNotifier_subordinate:
  assumes "subordinate outer ds s2 s1" "notifier pl = outer"
    "gitFetchNotifier c pl s2 = Some (pl', s2')"
  shows "\<exists>s1'. gitFetchNotifier c (pl\<lparr>notifier := length (promises s2) + length ds\<rparr>) s1
             = Some (pl'\<lparr>notifier := length (promises s2) + length ds\<rparr>, s1')
           \<and> subordinate outer ds s2' s1' \<and> notifier pl' = outer
           \<and> length (promises s2') = length (promises s2)"
proof -
  let ?sub = "length (promises s2) + length ds"
  from assms(3) obtain t2 where
    a: "(if payload_state pl \<noteq> Fetching then reportStatus ''Fetching...'' outer s2 else Some s2) = Some t2"
    and b: "reportProgress (fst c) (snd c) outer t2 = Some s2'"
    and p: "pl' = pl\<lparr>payload_state := Fetching\<rparr>"
    using assms(2) by (auto simp: gitFetchNotifier_def split: option.splits)
  have "\<exists>t1. (if payload_state pl \<noteq> Fetching then reportStatus ''Fetching...'' ?sub s1 else Some s1) = Some t1
      \<and> subordinate outer ds t2 t1 \<and> length (promises t2) = length (promises s2)"
  proof (cases "payload_state pl \<noteq> Fetching")
    case True
    with a have r: "reportTo (Status ''Fetching...'') outer s2 = Some t2" by (simp add: reportStatus_def)
    from reportTo_subordinate [OF assms(1) r] reportTo_length [OF r] True show ?thesis
      by (simp add: reportStatus_def)
  next
    case False
    with a assms(1) show ?thesis by simp
  qed
  then obtain t1 where
    a1: "(if payload_state pl \<noteq> Fetching then reportStatus ''Fetching...'' ?sub s1 else Some s1) = Some t1"
    and st: "subordinate outer ds t2 t1" and lt: "length (promises t2) = length (promises s2)"
    by blast
  from b have r: "reportTo (Progress (fst c) (snd c)) outer t2 = Some s2'"
    by (simp add: reportProgress_def)
  from reportTo_subordinate [OF st r] lt obtain s1' where
    b1: "reportProgress (fst c) (snd c) ?sub t1 = Some s1'" and ss: "subordinate outer ds s2' s1'"
    by (auto simp: reportProgress_def)
  from a1 b1 p have "gitFetchNotifier c (pl\<lparr>notifier := ?sub\<rparr>) s1 = Some (pl'\<lparr>notifier := ?sub\<rparr>, s1')"
    by (cases "payload_state pl = Fetching") (simp_all add: gitFetchNotifier_def)
  with ss p assms(2) reportTo_length [OF r] lt show ?thesis by simp
qed

lemma gitCheckoutNotifier_subordinate:
  assumes "subordinate outer ds s2 s1" "notifier pl = outer"
    "gitCheckoutNotifier c pl s2 = Some (pl', s2')"
  shows "\<exists>s1'. gitCheckoutNotifier c (pl\<lparr>notifier := length (promises s2) + length ds\<rparr>) s1
             = Some (pl'\<lparr>notifier := length (promises s2) + length ds\<rparr>, s1')
           \<and> subordinate outer ds s2' s1' \<and> notifier pl' = outer
           \<and> length (promises s2') = length (promises s2)"
proof -
  let ?sub = "length (promises s2) + length ds"
  let ?msg = "''Checking out '' @ pl_identifier pl @ ''...''"
  from assms(3) obtain t2 where
    a: "(if payload_state pl \<noteq> CheckingOut then reportStatus ?msg outer s2 else Some s2) = Some t2"
    and b: "reportProgress (fst c) (snd c) outer t2 = Some s2'"
    and p: "pl' = pl\<lparr>payload_state := CheckingOut\<rparr>"
    using assms(2) by (auto simp: gitCheckoutNotifier_def split: option.splits)
  have "\<exists>t1. (if payload_state pl \<noteq> CheckingOut then reportStatus ?msg ?sub s1 else Some s1) = Some t1
      \<and> subordinate outer ds t2 t1 \<and> length (promises t2) = length (promises s2)"
  proof (cases "payload_state pl \<noteq> CheckingOut")
    case True
    with a have r: "reportTo (Status ?msg) outer s2 = Some t2" by (simp add: reportStatus_def)
    from reportTo_subordinate [OF assms(1) r] reportTo_length [OF r] True show ?thesis
      by (simp add: reportStatus_def)
  next
    case False
    with a assms(1) show ?thesis by simp
  qed
  then obtain t1 where
    a1: "(if payload_state pl \<noteq> CheckingOut then reportStatus ?msg ?sub s1 else Some s1) = Some t1"
    and st: "subordinate outer ds t2 t1" and lt: "length (promises t2) = length (promises s2)"
    by blast
  from b have r: "reportTo (Progress (fst c) (snd c)) outer t2 = Some s2'"
    by (simp add: reportProgress_def)
  from reportTo_subordinate [OF st r] lt obtain s1' where
    b1: "reportProgress (fst c) (snd c) ?sub t1 = Some s1'" and ss: "subordinate outer ds s2' s1'"
    by (auto simp: reportProgress_def)
  from a1 b1 p have "gitCheckoutNotifier c (pl\<lparr>notifier := ?sub\<rparr>) s1
      = Some (pl'\<lparr>notifier := ?sub\<rparr>, s1')"
    by (cases "payload_state pl = CheckingOut") (simp_all add: gitCheckoutNotifier_def)
  with ss p assms(2) reportTo_length [OF r] lt show ?thesis by simp
qed

lemma runCallbacks_subordinate:
  assumes step: "\<And>c pl pl' s2 s1 s2'. subordinate outer ds s2 s1 \<Longrightarrow> notifier pl = outer
      \<Longrightarrow> callback c pl s2 = Some (pl', s2')
      \<Longrightarrow> \<exists>s1'. callback c (pl\<lparr>notifier := length (promises s2) + length ds\<rparr>) s1
             = Some (pl'\<lparr>notifier := length (promises s2) + length ds\<rparr>, s1')
           \<and> subordinate outer ds s2' s1' \<and> notifier pl' = outer
           \<and> length (promises s2') = length (promises s2)"
  shows "subordinate outer ds s2 s1 \<Longrightarrow> notifier pl = outer
      \<Longrightarrow> runCallbacks callback cs pl s2 = Some (pl', s2')
      \<Longrightarrow> \<exists>s1'. runCallbacks callback cs (pl\<lparr>notifier := length (promises s2) + length ds\<rparr>) s1
             = Some (pl'\<lparr>notifier := length (promises s2) + length ds\<rparr>, s1')
           \<and> subordinate outer ds s2' s1'
           \<and> length (promises s2') = length (promises s2)"
proof (induction cs arbitrary: pl s2 s1)
  case Nil
  then show ?case by simp
next
  case (Cons c cs)
  from Cons.prems(3) obtain pm t2 where
    c: "callback c pl s2 = Some (pm, t2)" and r: "runCallbacks callback cs pm t2 = Some (pl', s2')"
    by (auto split: option.splits)
  from step [OF Cons.prems(1,2) c] obtain t1 where
    c1: "callback c (pl\<lparr>notifier := length (promises s2) + length ds\<rparr>) s1
           = Some (pm\<lparr>notifier := length (promises s2) + length ds\<rparr>, t1)"
    and st: "subordinate outer ds t2 t1" and n: "notifier pm = outer"
    and l: "length (promises t2) = length (promises s2)"
    by blast
  from Cons.IH [OF st n r] l obtain s1' where
    "runCallbacks callback cs (pm\<lparr>notifier := length (promises s2) + length ds\<rparr>) t1
       = Some (pl'\<lparr>notifier := length (promises s2) + length ds\<rparr>, s1')"
    "subordinate outer ds s2' s1'" "length (promises s2') = length (promises s2)"
    by auto
  with c1 show ?case by simp
qed

lemma fetch_subordinate:
  assumes "subordinate outer ds s2 s1" "fetch git outer s2 = Some (res, s2')"
  shows "\<exists>s1'. fetch git (length (promises s2) + length ds) s1 = Some (res, s1')
           \<and> subordinate outer ds s2' s1' \<and> length (promises s2') = length (promises s2)"
proof (cases "checkAndThrow git (remote_lookup git)")
  case (Inl e)
  with assms(2) have "res = Inl e" "s2' = s2" by (simp_all add: fetch_def)
  with assms(1) Inl show ?thesis by (simp add: fetch_def)
next
  case (Inr u)
  let ?pl = "\<lparr>notifier = outer, pl_identifier = [], payload_state = Initial\<rparr>"
  from assms(2) Inr obtain pl' where
    r: "runCallbacks gitFetchNotifier (transfer_progress git) ?pl s2 = Some (pl', s2')"
    and res: "res = checkAndThrow git (remote_fetch git)"
    by (auto simp: fetch_def split: option.splits)
  have n: "notifier ?pl = outer" by simp
  from runCallbacks_subordinate [where callback = gitFetchNotifier, OF gitFetchNotifier_subordinate assms(1) n r]
  obtain s1' where
    "runCallbacks gitFetchNotifier (transfer_progress git)
       (?pl\<lparr>notifier := length (promises s2) + length ds\<rparr>) s1
       = Some (pl'\<lparr>notifier := length (promises s2) + length ds\<rparr>, s1')"
    "subordinate outer ds s2' s1'" "length (promises s2') = length (promises s2)"
    by blast
  with Inr res show ?thesis by (simp add: fetch_def)
qed

lemma checkout_subordinate:
  assumes "subordinate outer ds s2 s1" "checkout git id' outer s2 = Some (res, s2')"
  shows "\<exists>s1'. checkout git id' (length (promises s2) + length ds) s1 = Some (res, s1')
           \<and> subordinate outer ds s2' s1' \<and> length (promises s2') = length (promises s2)"
proof (cases "checkAndThrow git (revparse_single git)")
  case (Inl e)
  with assms(2) have "res = Inl e" "s2' = s2" by (simp_all add: checkout_def)
  with assms(1) Inl show ?thesis by (simp add: checkout_def)
next
  case (Inr u)
  let ?pl = "\<lparr>notifier = outer, pl_identifier = id', payload_state = Initial\<rparr>"
  from assms(2) Inr obtain pl' where
    r: "runCallbacks gitCheckoutNotifier (checkout_progress git) ?pl s2 = Some (pl', s2')"
    and res: "res = checkAndThrow git (checkout_tree git)"
    by (auto simp: checkout_def split: option.splits)
  have n: "notifier ?pl = outer" by simp
  from runCallbacks_subordinate [where callback = gitCheckoutNotifier,
      OF gitCheckoutNotifier_subordinate assms(1) n r]
  obtain s1' where
    "runCallbacks gitCheckoutNotifier (checkout_progress git)
       (?pl\<lparr>notifier := length (promises s2) + length ds\<rparr>) s1
       = Some (pl'\<lparr>notifier := length (promises s2) + length ds\<rparr>, s1')"
    "subordinate outer ds s2' s1'" "length (promises s2') = length (promises s2)"
    by blast
  with Inr res show ?thesis by (simp add: checkout_def)
qed


text \<open>\<open>await\<close> on a task that does on its own promise what it does on the outer one.\<close>

lemma await_subordinate:
  assumes sim: "\<And>s1. subordinate outer ds s2 s1
      \<Longrightarrow> \<exists>s1'. task (length (promises s2) + length ds) s1 = Some (res, s1')
             \<and> subordinate outer ds s2' s1' \<and> length (promises s2') = length (promises s2)"
    and fin: "case res of Inr u \<Rightarrow> s2'' = s2' | Inl e \<Rightarrow> reportException e outer s2' = Some s2''"
  shows "\<exists>d. await outer task (extend s2 ds) = Some (res, extend s2'' (ds @ [d]))
           \<and> delegateTo d = Some outer"
proof -
  let ?sub = "length (promises s2) + length ds"
  let ?st0 = "extend s2 (ds @ [newPromise (Some outer) []])"
  have st0: "extend s2 ds\<lparr>promises := promises (extend s2 ds) @ [newPromise (Some outer) []]\<rparr> = ?st0"
    by (simp add: extend_def)
  have "subordinate outer ds s2 ?st0"
    by (auto simp: subordinate_def newPromise_def)
  from sim [OF this] obtain s1' where
    t: "task ?sub ?st0 = Some (res, s1')" and s: "subordinate outer ds s2' s1'"
    and l: "length (promises s2') = length (promises s2)"
    by blast
  from s obtain d where s1': "s1' = extend s2' (ds @ [d])"
    and d: "delegateTo d = Some outer" "watchers d = []"
    by (auto simp: subordinate_def)
  show ?thesis
  proof (cases res)
    case (Inr u)
    with fin have e: "s2'' = s2'" by simp
    have "lookup s1' ?sub = Some d" using l by (simp add: s1' lookup_def nth_append)
    then have "reportFinished ?sub s1' = Some (extend s2' (ds @ [d\<lparr>d_state := StateFinished\<rparr>]))"
      using d l by (simp add: reportFinished_def report_def s1' extend_def list_update_append)
    with t Inr e have "await outer task (extend s2 ds)
        = Some (res, extend s2'' (ds @ [d\<lparr>d_state := StateFinished\<rparr>]))"
      by (simp add: await_def Let_def st0 del: extend_simps) (simp add: extend_def)
    with d show ?thesis by (intro exI [of _ "d\<lparr>d_state := StateFinished\<rparr>"]) simp
  next
    case (Inl e)
    with fin have r: "reportTo (Failure e) outer s2' = Some s2''" by (simp add: reportException_def)
    from reportTo_subordinate [OF s r] l obtain s1'' where
      x: "reportException e ?sub s1' = Some s1''" and ss: "subordinate outer ds s2'' s1''"
      by (auto simp: reportException_def)
    from ss obtain d' where "s1'' = extend s2'' (ds @ [d'])" "delegateTo d' = Some outer"
      by (auto simp: subordinate_def)
    moreover have "length (promises (extend s2 ds)) = ?sub" by simp
    ultimately show ?thesis using t Inl x
      by (intro exI [of _ d']) (simp add: await_def Let_def st0 del: extend_simps)
  qed
qed

text \<open>Reports, callbacks and tasks return when the chain of the promise ends at once.\<close>

lemma reportTo_endsAt:
  assumes "endsAt p st"
  shows "\<exists>st'. reportTo r p st = Some st' \<and> endsAt p st'"
proof -
  from assms obtain d where d: "lookup st p = Some d" "delegateTo d = None"
    by (auto simp: endsAt_def split: option.splits)
  then have 1: "reportTo r p st
      = Some (report (signalOf r) d (st\<lparr>promises := (promises st)[p := writeMembers r d]\<rparr>))"
    by (subst reportTo.simps) (simp add: Let_def)
  from reportTo_target [OF 1 d(1)] d(2) have "endsAt p
      (report (signalOf r) d (st\<lparr>promises := (promises st)[p := writeMembers r d]\<rparr>))"
    by (simp add: endsAt_def)
  with 1 show ?thesis by blast
qed

lemma gitFetchNotifier_endsAt:
  assumes "endsAt (notifier pl) st"
  shows "\<exists>pl' st'. gitFetchNotifier c pl st = Some (pl', st') \<and> notifier pl' = notifier pl
           \<and> endsAt (notifier pl) st'"
proof -
  from reportTo_endsAt [OF assms] assms obtain t where
    a: "(if payload_state pl \<noteq> Fetching then reportStatus ''Fetching...'' (notifier pl) st else Some st)
          = Some t" and e: "endsAt (notifier pl) t"
    by (cases "payload_state pl = Fetching") (auto simp: reportStatus_def)
  from reportTo_endsAt [OF e] obtain st' where
    "reportProgress (fst c) (snd c) (notifier pl) t = Some st'" "endsAt (notifier pl) st'"
    by (auto simp: reportProgress_def)
  with a show ?thesis
    by (cases "payload_state pl = Fetching") (auto simp: gitFetchNotifier_def)
qed

lemma gitCheckoutNotifier_endsAt:
  assumes "endsAt (notifier pl) st"
  shows "\<exists>pl' st'. gitCheckoutNotifier c pl st = Some (pl', st') \<and> notifier pl' = notifier pl
           \<and> endsAt (notifier pl) st'"
proof -
  let ?msg = "''Checking out '' @ pl_identifier pl @ ''...''"
  from reportTo_endsAt [OF assms] assms obtain t where
    a: "(if payload_state pl \<noteq> CheckingOut then reportStatus ?msg (notifier pl) st else Some st)
          = Some t" and e: "endsAt (notifier pl) t"
    by (cases "payload_state pl = CheckingOut") (auto simp: reportStatus_def)
  from reportTo_endsAt [OF e] obtain st' where
    "reportProgress (fst c) (snd c) (notifier pl) t = Some st'" "endsAt (notifier pl) st'"
    by (auto simp: reportProgress_def)
  with a show ?thesis
    by (cases "payload_state pl = CheckingOut") (auto simp: gitCheckoutNotifier_def)
qed

lemma runCallbacks_endsAt:
  assumes step: "\<And>c pl st. endsAt (notifier pl) st
      \<Longrightarrow> \<exists>pl' st'. callback c pl st = Some (pl', st') \<and> notifier pl' = notifier pl
             \<and> endsAt (notifier pl) st'"
  shows "endsAt (notifier pl) st
      \<Longrightarrow> \<exists>pl' st'. runCallbacks callback cs pl st = Some (pl', st') \<and> endsAt (notifier pl) st'"
proof (induction cs arbitrary: pl st)
  case Nil
  then show ?case by simp
next
  case (Cons c cs)
  from step [OF Cons.prems] obtain pm t where
    c: "callback c pl st = Some (pm, t)" and n: "notifier pm = notifier pl"
    and e: "endsAt (notifier pl) t"
    by blast
  from Cons.IH [of pm t] n e obtain pl' st' where
    "runCallbacks callback cs pm t = Some (pl', st')" "endsAt (notifier pl) st'"
    by auto
  with c show ?case by simp
qed

lemma fetch_endsAt:
  assumes "endsAt n st"
  shows "\<exists>res st'. fetch git n st = Some (res, st') \<and> endsAt n st'"
proof (cases "checkAndThrow git (remote_lookup git)")
  case (Inl e)
  with assms show ?thesis by (simp add: fetch_def)
next
  case (Inr u)
  let ?pl = "\<lparr>notifier = n, pl_identifier = [], payload_state = Initial\<rparr>"
  from assms have "endsAt (notifier ?pl) st" by simp
  from runCallbacks_endsAt [where callback = gitFetchNotifier and cs = "transfer_progress git",
      OF gitFetchNotifier_endsAt this]
  obtain pl' st' where
    "runCallbacks gitFetchNotifier (transfer_progress git) ?pl st = Some (pl', st')" "endsAt n st'"
    by auto
  with Inr show ?thesis by (simp add: fetch_def)
qed

lemma checkout_endsAt:
  assumes "endsAt n st"
  shows "\<exists>res st'. checkout git id' n st = Some (res, st') \<and> endsAt n st'"
proof (cases "checkAndThrow git (revparse_single git)")
  case (Inl e)
  with assms show ?thesis by (simp add: checkout_def)
next
  case (Inr u)
  let ?pl = "\<lparr>notifier = n, pl_identifier = id', payload_state = Initial\<rparr>"
  from assms have "endsAt (notifier ?pl) st" by simp
  from runCallbacks_endsAt [where callback = gitCheckoutNotifier and cs = "checkout_progress git",
      OF gitCheckoutNotifier_endsAt this]
  obtain pl' st' where
    "runCallbacks gitCheckoutNotifier (checkout_progress git) ?pl st = Some (pl', st')" "endsAt n st'"
    by auto
  with Inr show ?thesis by (simp add: checkout_def)
qed

lemma pullSpec_returns:
  assumes "endsAt n st"
  shows "\<exists>res st'. pullSpec git id' n st = Some (res, st')"
proof -
  from fetch_endsAt [OF assms] obtain r1 st1 where
    f: "fetch git n st = Some (r1, st1)" and e1: "endsAt n st1" by blast
  show ?thesis
  proof (cases r1)
    case (Inl e)
    from reportTo_endsAt [OF e1, of "Failure e"] obtain st2 where
      "reportException e n st1 = Some st2" by (auto simp: reportException_def)
    with f Inl show ?thesis by (simp add: pullSpec_def)
  next
    case (Inr u)
    from checkout_endsAt [OF e1] obtain r2 st2 where
      c: "checkout git id' n st1 = Some (r2, st2)" and e2: "endsAt n st2" by blast
    show ?thesis
    proof (cases r2)
      case (Inl e)
      from reportTo_endsAt [OF e2, of "Failure e"] obtain st3 where
        "reportException e n st2 = Some st3" by (auto simp: reportException_def)
      with f Inr c Inl show ?thesis by (simp add: pullSpec_def)
    next
      case (Inr u')
      with f \<open>r1 = Inr u\<close> c show ?thesis by (simp add: pullSpec_def)
    qed
  qed
qed


lemma pull_simulates_pullSpec:
  assumes "pullSpec git id' outer st = Some (res, s2)"
  shows "\<exists>ds. pull git id' outer st = Some (res, extend s2 ds)
           \<and> (\<forall>d \<in> set ds. delegateTo d = Some outer)"
proof -
  from assms obtain r1 t2 where f: "fetch git outer st = Some (r1, t2)"
    by (auto simp: pullSpec_def split: option.splits)
  show ?thesis
  proof (cases r1)
    case (Inl e)
    with assms f have x: "reportException e outer t2 = Some s2" and res: "res = Inl e"
      by (auto simp: pullSpec_def split: option.splits)
    have sim: "\<exists>s1'. fetch git (length (promises st) + length ([]::BaseFutureData list)) s1 = Some (r1, s1')
             \<and> subordinate outer [] t2 s1' \<and> length (promises t2) = length (promises st)"
      if "subordinate outer [] st s1" for s1
      using fetch_subordinate [OF that f] .
    have fin: "case r1 of Inr u \<Rightarrow> s2 = t2 | Inl e \<Rightarrow> reportException e outer t2 = Some s2"
      using Inl x by simp
    from await_subordinate [where task = "fetch git" and ds = "[]", OF sim fin]
    obtain d where "await outer (fetch git) st = Some (r1, extend s2 [d])" "delegateTo d = Some outer"
      by auto
    with Inl res show ?thesis by (intro exI [of _ "[d]"]) (simp add: pull_def)
  next
    case (Inr u)
    with assms f obtain r2 u2 where c: "checkout git id' outer t2 = Some (r2, u2)"
      by (auto simp: pullSpec_def split: option.splits)
    have sim: "\<exists>s1'. fetch git (length (promises st) + length ([]::BaseFutureData list)) s1 = Some (r1, s1')
             \<and> subordinate outer [] t2 s1' \<and> length (promises t2) = length (promises st)"
      if "subordinate outer [] st s1" for s1
      using fetch_subordinate [OF that f] .
    have fin1: "case r1 of Inr u \<Rightarrow> t2 = t2 | Inl e \<Rightarrow> reportException e outer t2 = Some t2"
      using Inr by simp
    from await_subordinate [where task = "fetch git" and ds = "[]", OF sim fin1]
    obtain d1 where a1: "await outer (fetch git) st = Some (Inr (), extend t2 [d1])"
      and d1: "delegateTo d1 = Some outer"
      using Inr by auto
    have fin: "case r2 of Inr u \<Rightarrow> s2 = u2 | Inl e \<Rightarrow> reportException e outer u2 = Some s2"
      and res: "res = r2"
      using assms f Inr c by (auto simp: pullSpec_def split: option.splits sum.splits)
    have sim2: "\<exists>s1'. checkout git id' (length (promises t2) + length [d1]) s1 = Some (r2, s1')
             \<and> subordinate outer [d1] u2 s1' \<and> length (promises u2) = length (promises t2)"
      if "subordinate outer [d1] t2 s1" for s1
      using checkout_subordinate [OF that c] .
    from await_subordinate [where task = "checkout git id'" and ds = "[d1]", OF sim2 fin]
    obtain d2 where
      a2: "await outer (checkout git id') (extend t2 [d1]) = Some (r2, extend s2 [d1, d2])"
      and d2: "delegateTo d2 = Some outer"
      by auto
    from a1 a2 res have "pull git id' outer st = Some (res, extend s2 [d1, d2])"
      by (simp add: pull_def)
    with d1 d2 show ?thesis by (intro exI [of _ "[d1, d2]"]) simp
  qed
qed

text \<open>
  Claim C6. Whenever the pull of the spec (fetch, then checkout, as one task that reports
  on its own promise) returns, \<open>GitRepo::pull\<close> returns with the same outcome, the
  watchers have received the same signals in the same order, and the store is the same but
  for the promises of the subordinate tasks at its end, which all delegate to the promise
  of the pull. The pull of the spec returns when the promise of the pull delegates to
  nobody.
\<close>

theorem pull_refines_pullSpec:
  "(pullSpec git id' outer st = Some (res, s2) \<longrightarrow>
      (\<exists>s1 ds. pull git id' outer st = Some (res, s1)
         \<and> emitted s1 = emitted s2 \<and> promises s1 = promises s2 @ ds
         \<and> (\<forall>d \<in> set ds. delegateTo d = Some outer)))
   \<and> (endsAt outer st \<longrightarrow> (\<exists>res s2. pullSpec git id' outer st = Some (res, s2)))"
proof (intro conjI impI)
  assume "pullSpec git id' outer st = Some (res, s2)"
  from pull_simulates_pullSpec [OF this] obtain ds where
    "pull git id' outer st = Some (res, extend s2 ds)" "\<forall>d \<in> set ds. delegateTo d = Some outer"
    by blast
  then show "\<exists>s1 ds. pull git id' outer st = Some (res, s1)
         \<and> emitted s1 = emitted s2 \<and> promises s1 = promises s2 @ ds
         \<and> (\<forall>d \<in> set ds. delegateTo d = Some outer)"
    by (intro exI [of _ "extend s2 ds"] exI [of _ ds]) simp
next
  assume "endsAt outer st"
  then show "\<exists>res s2. pullSpec git id' outer st = Some (res, s2)" by (rule pullSpec_returns)
qed

lemma example_pullSpec:
  "pullSpec exampleGit ''main'' 0 pullStore = Some (Inr (),
     \<lparr>promises = [\<lparr>d_state = StateRunning, progressCurrent = 2, progressTotal = 2,
          d_status = ''Checking out main...'', d_exception = None,
          delegateTo = None, watchers = [7]\<rparr>],
      emitted = [(7, status ''Fetching...''), (7, progress 1 4), (7, progress 4 4),
         (7, status ''Checking out main...''), (7, progress 0 2), (7, progress 2 2)]\<rparr>)"
  by code_simp

lemma example_pullSpec_failing:
  "pullSpec failingGit ''main'' 0 pullStore = Some (Inl (GitException ''early EOF'' (- 1)),
     \<lparr>promises = [\<lparr>d_state = StateException, progressCurrent = 2, progressTotal = 4,
          d_status = ''Fetching...'', d_exception = Some (GitException ''early EOF'' (- 1)),
          delegateTo = None, watchers = [7]\<rparr>],
      emitted = [(7, status ''Fetching...''), (7, progress 1 4), (7, progress 2 4),
         (7, exception)]\<rparr>)"
  by code_simp

theorem pull_refines_pullSpec_witness:
  "endsAt 0 pullStore
   \<and> (\<exists>res s2. pullSpec exampleGit ''main'' 0 pullStore = Some (res, s2))
   \<and> (\<exists>s1 ds. pull exampleGit ''main'' 0 pullStore = Some (Inr (), s1)
         \<and> emitted s1 = [(7, status ''Fetching...''), (7, progress 1 4), (7, progress 4 4),
              (7, status ''Checking out main...''), (7, progress 0 2), (7, progress 2 2)]
         \<and> promises s1 = [\<lparr>d_state = StateRunning, progressCurrent = 2, progressTotal = 2,
              d_status = ''Checking out main...'', d_exception = None,
              delegateTo = None, watchers = [7]\<rparr>] @ ds
         \<and> (\<forall>d \<in> set ds. delegateTo d = Some 0))
   \<and> (\<exists>s1 ds. pull failingGit ''main'' 0 pullStore = Some (Inl (GitException ''early EOF'' (- 1)), s1)
         \<and> emitted s1 = [(7, status ''Fetching...''), (7, progress 1 4), (7, progress 2 4),
              (7, exception)]
         \<and> promises s1 = [\<lparr>d_state = StateException, progressCurrent = 2, progressTotal = 4,
              d_status = ''Fetching...'', d_exception = Some (GitException ''early EOF'' (- 1)),
              delegateTo = None, watchers = [7]\<rparr>] @ ds
         \<and> (\<forall>d \<in> set ds. delegateTo d = Some 0))"
proof -
  have e: "endsAt 0 pullStore"
    by (simp add: endsAt_def lookup_def pullStore_def newPromise_def)
  from pull_refines_pullSpec [of exampleGit "''main''" 0 pullStore] e
  have 1: "\<exists>res s2. pullSpec exampleGit ''main'' 0 pullStore = Some (res, s2)" by blast
  from pull_refines_pullSpec [of exampleGit "''main''" 0 pullStore, THEN conjunct1, rule_format,
      OF example_pullSpec]
  have 2: "\<exists>s1 ds. pull exampleGit ''main'' 0 pullStore = Some (Inr (), s1)
         \<and> emitted s1 = [(7, status ''Fetching...''), (7, progress 1 4), (7, progress 4 4),
              (7, status ''Checking out main...''), (7, progress 0 2), (7, progress 2 2)]
         \<and> promises s1 = [\<lparr>d_state = StateRunning, progressCurrent = 2, progressTotal = 2,
              d_status = ''Checking out main...'', d_exception = None,
              delegateTo = None, watchers = [7]\<rparr>] @ ds
         \<and> (\<forall>d \<in> set ds. delegateTo d = Some 0)"
    by simp
  from pull_refines_pullSpec [of failingGit "''main''" 0 pullStore, THEN conjunct1, rule_format,
      OF example_pullSpec_failing]
  have 3: "\<exists>s1 ds. pull failingGit ''main'' 0 pullStore
             = Some (Inl (GitException ''early EOF'' (- 1)), s1)
         \<and> emitted s1 = [(7, status ''Fetching...''), (7, progress 1 4), (7, progress 2 4),
              (7, exception)]
         \<and> promises s1 = [\<lparr>d_state = StateException, progressCurrent = 2, progressTotal = 4,
              d_status = ''Fetching...'', d_exception = Some (GitException ''early EOF'' (- 1)),
              delegateTo = None, watchers = [7]\<rparr>] @ ds
         \<and> (\<forall>d \<in> set ds. delegateTo d = Some 0)"
    by simp
  from e 1 2 3 show ?thesis by blast
qed

text \<open>
  Claim C7. \<open>credentialsCallback\<close> passes the answer of the broker on in one of three ways:
  a valid response writes the credential to \<open>*out\<close> and returns 0, an invalid response
  returns the positive value 1 and leaves \<open>*out\<close> alone, and an error response returns the
  negative \<open>GIT_EUSER\<close> and leaves \<open>*out\<close> alone. The three return values differ.
\<close>

theorem credentialsCallback_three_ways:
  "credentialsCallback broker out u n allowed =
     (case broker \<lparr>allowedTypes = queryTypes allowed, url = u, usernameFromUrl = n\<rparr> of
        Valid c \<Rightarrow> (0, Some c)
      | Invalid \<Rightarrow> (1, out)
      | Error \<Rightarrow> (GIT_EUSER, out))
   \<and> (0::int) < 1 \<and> GIT_EUSER < 0"
  by (simp add: credentialsCallback_def GIT_EUSER_def Let_def split: GitCredentialResponse.splits)

lemma outputDatabase_optional:
  "\<exists>out. outputDatabase env t False = Inr out \<and> listedSources out = sourcesOf env t
     \<and> headings out = (if env t = None then [] else [t])"
proof (cases "env t")
  case None
  then show ?thesis by (simp add: outputDatabase_def sourcesOf_def)
next
  case (Some db)
  have "listedSources (map SourceLine xs @ ys) = xs @ listedSources ys" for xs ys
    by (induction xs) simp_all
  moreover have "headings (map SourceLine xs @ ys) = headings ys" for xs ys
    by (induction xs) simp_all
  ultimately show ?thesis using Some by (simp add: outputDatabase_def sourcesOf_def)
qed

lemma outputDatabase_forced:
  assumes "env t = Some db"
  shows "\<exists>out. outputDatabase env t True = Inr out \<and> listedSources out = sources db
     \<and> headings out = [t]"
proof -
  have "listedSources (map SourceLine xs @ ys) = xs @ listedSources ys" for xs ys
    by (induction xs) simp_all
  moreover have "headings (map SourceLine xs @ ys) = headings ys" for xs ys
    by (induction xs) simp_all
  ultimately show ?thesis using assms by (simp add: outputDatabase_def)
qed

lemma listedSources_append: "listedSources (xs @ ys) = listedSources xs @ listedSources ys"
  by (induction xs rule: listedSources.induct) simp_all

lemma headings_append: "headings (xs @ ys) = headings xs @ headings ys"
  by (induction xs rule: headings.induct) simp_all

text \<open>
  Claim C8. When the database of the requested scope is there, \<open>listSources\<close> with scope
  project lists the sources of the project, user and system databases, in this order; with
  scope user those of the user and system databases; with scope system those of the
  system database alone. A further scope that has no database contributes neither a
  heading nor a source.
\<close>

theorem listSources_scopes:
  "(env ''project'' = Some db \<longrightarrow>
      (\<exists>out. listSources env ''project'' = Inr out
         \<and> listedSources out = sources db @ sourcesOf env ''user'' @ sourcesOf env ''system''
         \<and> headings out = ''project'' # present env ''user'' @ present env ''system''))
   \<and> (env ''user'' = Some db \<longrightarrow>
      (\<exists>out. listSources env ''user'' = Inr out
         \<and> listedSources out = sources db @ sourcesOf env ''system''
         \<and> headings out = ''user'' # present env ''system''))
   \<and> (env ''system'' = Some db \<longrightarrow>
      (\<exists>out. listSources env ''system'' = Inr out
         \<and> listedSources out = sources db
         \<and> headings out = [''system'']))"
proof (intro conjI impI)
  assume p: "env ''project'' = Some db"
  from outputDatabase_forced [of env _ db, OF p] obtain out1 where
    1: "outputDatabase env ''project'' True = Inr out1" "listedSources out1 = sources db"
      "headings out1 = [''project'']" by blast
  from outputDatabase_optional [of env "''user''"] obtain out2 where
    2: "outputDatabase env ''user'' False = Inr out2" "listedSources out2 = sourcesOf env ''user''"
      "headings out2 = present env ''user''" unfolding present_def by blast
  from outputDatabase_optional [of env "''system''"] obtain out3 where
    3: "outputDatabase env ''system'' False = Inr out3"
      "listedSources out3 = sourcesOf env ''system''"
      "headings out3 = present env ''system''" unfolding present_def by blast
  from 1 2 3 have "listSources env ''project'' = Inr (out1 @ [BlankLine] @ out2 @ [BlankLine] @ out3)"
    by (simp add: listSources_def)
  with 1 2 3 show "\<exists>out. listSources env ''project'' = Inr out
         \<and> listedSources out = sources db @ sourcesOf env ''user'' @ sourcesOf env ''system''
         \<and> headings out = ''project'' # present env ''user'' @ present env ''system''"
    by (simp add: listedSources_append headings_append)
next
  assume p: "env ''user'' = Some db"
  from outputDatabase_forced [of env _ db, OF p] obtain out1 where
    1: "outputDatabase env ''user'' True = Inr out1" "listedSources out1 = sources db"
      "headings out1 = [''user'']" by blast
  from outputDatabase_optional [of env "''system''"] obtain out3 where
    3: "outputDatabase env ''system'' False = Inr out3"
      "listedSources out3 = sourcesOf env ''system''"
      "headings out3 = present env ''system''" unfolding present_def by blast
  from 1 3 have "listSources env ''user'' = Inr (out1 @ [BlankLine] @ out3)"
    by (simp add: listSources_def)
  with 1 3 show "\<exists>out. listSources env ''user'' = Inr out
         \<and> listedSources out = sources db @ sourcesOf env ''system''
         \<and> headings out = ''user'' # present env ''system''"
    by (simp add: listedSources_append headings_append)
next
  assume p: "env ''system'' = Some db"
  from outputDatabase_forced [of env _ db, OF p] obtain out1 where
    1: "outputDatabase env ''system'' True = Inr out1" "listedSources out1 = sources db"
      "headings out1 = [''system'']" by blast
  from 1 have "listSources env ''system'' = Inr out1"
    by (simp add: listSources_def)
  with 1 show "\<exists>out. listSources env ''system'' = Inr out
         \<and> listedSources out = sources db
         \<and> headings out = [''system'']"
    by simp
qed

theorem listSources_scopes_witness:
  "exampleEnv ''project'' = Some fooDatabase
   \<and> exampleEnv ''user'' = Some (PackageDatabase [userSource] None)
   \<and> exampleEnv ''system'' = Some (PackageDatabase [] None)
   \<and> (\<exists>out. listSources exampleEnv ''project'' = Inr out
         \<and> listedSources out = [originSource, userSource]
         \<and> headings out = [''project'', ''user'', ''system''])
   \<and> (\<exists>out. listSources exampleEnv ''user'' = Inr out
         \<and> listedSources out = [userSource]
         \<and> headings out = [''user'', ''system''])
   \<and> (\<exists>out. listSources exampleEnv ''system'' = Inr out
         \<and> listedSources out = []
         \<and> headings out = [''system''])
   \<and> (\<exists>out. listSources projectOnlyEnv ''project'' = Inr out
         \<and> listedSources out = [originSource]
         \<and> headings out = [''project''])"
proof -
  have p: "exampleEnv ''project'' = Some fooDatabase"
    and u: "exampleEnv ''user'' = Some (PackageDatabase [userSource] None)"
    and s: "exampleEnv ''system'' = Some (PackageDatabase [] None)"
    and o: "projectOnlyEnv ''project'' = Some fooDatabase"
    by (simp_all add: exampleEnv_def projectOnlyEnv_def)
  have v: "sourcesOf exampleEnv ''user'' = [userSource]" "sourcesOf exampleEnv ''system'' = []"
    "present exampleEnv ''user'' = [''user'']" "present exampleEnv ''system'' = [''system'']"
    "sourcesOf projectOnlyEnv ''user'' = []" "sourcesOf projectOnlyEnv ''system'' = []"
    "present projectOnlyEnv ''user'' = []" "present projectOnlyEnv ''system'' = []"
    "sources fooDatabase = [originSource]"
    by (simp_all add: sourcesOf_def present_def exampleEnv_def projectOnlyEnv_def fooDatabase_def)
  from listSources_scopes [of exampleEnv fooDatabase] p v
  have 1: "\<exists>out. listSources exampleEnv ''project'' = Inr out
         \<and> listedSources out = [originSource, userSource]
         \<and> headings out = [''project'', ''user'', ''system'']"
    by simp
  from listSources_scopes [of exampleEnv "PackageDatabase [userSource] None"] u v
  have 2: "\<exists>out. listSources exampleEnv ''user'' = Inr out
         \<and> listedSources out = [userSource]
         \<and> headings out = [''user'', ''system'']"
    by simp
  from listSources_scopes [of exampleEnv "PackageDatabase [] None"] s v
  have 3: "\<exists>out. listSources exampleEnv ''system'' = Inr out
         \<and> listedSources out = []
         \<and> headings out = [''system'']"
    by simp
  from listSources_scopes [of projectOnlyEnv fooDatabase] o v
  have 4: "\<exists>out. listSources projectOnlyEnv ''project'' = Inr out
         \<and> listedSources out = [originSource]
         \<and> headings out = [''project'']"
    by simp
  from p u s 1 2 3 4 show ?thesis by blast
qed

lemma argumentList_replicate:
  "argumentList i argc argv list = list @ replicate (nat (argc - i)) (argv ! 0)"
proof (induction i argc argv list rule: argumentList.induct)
  case (1 i argc argv list)
  show ?case
  proof (cases "i < argc")
    case True
    then have "nat (argc - i) = Suc (nat (argc - (i + 1)))" by simp
    with True 1 show ?thesis
      by (subst argumentList.simps) (simp add: replicate_app_Cons_same)
  next
    case False
    then show ?thesis by (subst argumentList.simps) simp
  qed
qed

text \<open>
  Claim C9. For \<open>argc > 0\<close> the \<open>argc\<close>/\<open>argv\<close> overload of \<open>process\<close> parses the list
  that holds \<open>argc\<close> copies of \<open>argv[0]\<close>: the arguments \<open>argv[1..argc-1]\<close> never reach
  the parser of the string list.
\<close>

theorem processArgv_repeats_argv0:
  "0 < argc \<Longrightarrow> argv \<noteq> [] \<Longrightarrow>
     argumentList 0 argc argv [] = replicate (nat argc) (hd argv)
     \<and> processArgv optCall cmdCall parser argc argv
         = process optCall cmdCall parser (replicate (nat argc) (hd argv))"
  by (simp add: processArgv_def argumentList_replicate hd_conv_nth)

theorem processArgv_repeats_argv0_witness:
  "(0::int) < 3 \<and> [''ralph'', ''install'', ''foo''] \<noteq> []
   \<and> argumentList 0 3 [''ralph'', ''install'', ''foo''] [] = [''ralph'', ''ralph'', ''ralph'']
   \<and> processArgv (\<lambda>opt r. None) (\<lambda>cmd r. None) exampleParser 3 [''ralph'', ''install'', ''foo'']
       = process (\<lambda>opt r. None) (\<lambda>cmd r. None) exampleParser [''ralph'', ''ralph'', ''ralph'']"
  using processArgv_repeats_argv0 [of 3 "[''ralph'', ''install'', ''foo'']"
      "\<lambda>opt r. None" "\<lambda>cmd r. None" exampleParser]
  by (simp add: numeral_3_eq_3)

lemma set_update_subset: "set (AList.update k v al) \<subseteq> insert (k, v) (set al)"
  by (induction al) auto

lemma keys_update: "fst ` set (AList.update k v al) = insert k (fst ` set al)"
  by (simp add: AList.dom_update)

lemma declaredOptions_child:
  "map_of (subcommands c) k = Some c' \<Longrightarrow> set (declaredOptions c') \<subseteq> set (declaredOptions c)"
proof (cases c)
  case (Command n opts args subs aliases)
  assume "map_of (subcommands c) k = Some c'"
  with Command have "(k, c') \<in> set subs" by (auto dest: map_of_SomeD)
  with Command show ?thesis by force
qed

lemma declaredOptions_value:
  "set (declaredOptions (valueOr defaultCommand (subcommands c) k)) \<subseteq> set (declaredOptions c)"
  by (auto simp: valueOr_def defaultCommand_def split: option.splits dest: declaredOptions_child)

lemma cmd_options_declared: "set (cmd_options c) \<subseteq> set (declaredOptions c)"
  by (cases c) simp

lemma insertOption_range:
  "snd ` set (insertOption opt table) \<subseteq> insert opt (snd ` set table)"
proof -
  have "snd ` set (fold (\<lambda>name. AList.update name opt) ns table) \<subseteq> insert opt (snd ` set table)"
    for ns
  proof (induction ns arbitrary: table)
    case Nil
    then show ?case by auto
  next
    case (Cons n ns)
    have "snd ` set (AList.update n opt table) \<subseteq> insert opt (snd ` set table)"
      using set_update_subset [of n opt table] by force
    with Cons [of "AList.update n opt table"] show ?case by auto
  qed
  then show ?thesis by (simp add: insertOption_def)
qed

lemma fold_insertOption_range:
  "snd ` set (fold insertOption opts table) \<subseteq> set opts \<union> snd ` set table"
proof (induction opts arbitrary: table)
  case Nil
  then show ?case by simp
next
  case (Cons opt opts)
  from Cons [of "insertOption opt table"] insertOption_range [of opt table]
  show ?case by auto
qed

lemma nextCommand_inv:
  assumes "parseInv D st" "set (declaredOptions command) \<subseteq> D" "nextCommand st command = Inr st'"
  shows "parseInv D st'"
proof -
  from assms(3) have st': "st' = st\<lparr>ps_options := fold insertOption (cmd_options command) (ps_options st),
       ps_positionals := ps_positionals st @ cmd_arguments command,
       currentCommand := command,
       res_commandChain := res_commandChain st @ [cmd_name command]\<rparr>"
    by (auto simp: nextCommand_def Let_def split: sum.splits)
  have "snd ` set (ps_options st) \<subseteq> D" using assms(1) by (simp add: parseInv_def)
  then have "snd ` set (fold insertOption (cmd_options command) (ps_options st)) \<subseteq> D"
    using fold_insertOption_range [of "cmd_options command" "ps_options st"]
      cmd_options_declared [of command] assms(2)
    by blast
  with assms(1,2) show ?thesis by (simp add: st' parseInv_def)
qed

lemma resolveAlias_inv:
  "parseInv D st \<Longrightarrow> resolveAlias st path = Inr st' \<Longrightarrow> parseInv D st'"
proof (induction path arbitrary: st)
  case Nil
  then show ?case by simp
next
  case (Cons cmd path)
  from Cons.prems(2) obtain st1 where
    n: "nextCommand st (valueOr defaultCommand (subcommands (currentCommand st)) cmd) = Inr st1"
    and r: "resolveAlias st1 path = Inr st'"
    by (auto split: sum.splits)
  have "set (declaredOptions (valueOr defaultCommand (subcommands (currentCommand st)) cmd)) \<subseteq> D"
    using declaredOptions_value [of "currentCommand st" cmd] Cons.prems(1)
    by (auto simp: parseInv_def)
  from nextCommand_inv [OF Cons.prems(1) this n] r Cons.IH show ?case by blast
qed

lemma handleOption_stores:
  assumes "handleOption st name value hasValue it = Inr (st', consumed)"
  shows "\<exists>opt v. map_of (ps_options st) name = Some opt
           \<and> res_options st' = AList.update (hd (names opt)) v (res_options st)
           \<and> st' = st\<lparr>res_options := res_options st'\<rparr>
           \<and> (if consumed then \<exists>prev rest. it = Some (prev, v # rest) else v = value)"
  using assms
  by (auto simp: handleOption_def contains_def valueOr_def Let_def
           split: if_splits option.splits list.splits prod.splits)

lemma handleOption_inv:
  assumes "parseInv D st" "handleOption st name value hasValue it = Inr (st', consumed)"
  shows "parseInv D st'"
proof -
  from handleOption_stores [OF assms(2)] obtain opt v where
    o: "map_of (ps_options st) name = Some opt"
    and r: "res_options st' = AList.update (hd (names opt)) v (res_options st)"
    and s: "st' = st\<lparr>res_options := res_options st'\<rparr>"
    by blast
  from o have "opt \<in> snd ` set (ps_options st)" by (force dest: map_of_SomeD)
  with assms(1) have "opt \<in> D" by (auto simp: parseInv_def)
  with assms(1) r have "fst ` set (res_options st') \<subseteq> (\<lambda>opt. hd (names opt)) ` D"
    by (auto simp: parseInv_def keys_update)
  moreover from s have "currentCommand st' = currentCommand st" "ps_options st' = ps_options st"
    by (metis ParseState.select_convs ParseState.surjective ParseState.update_convs(1))+
  ultimately show ?thesis using assms(1) by (simp add: parseInv_def)
qed

lemma handleShortOptions_inv:
  "parseInv D st \<Longrightarrow> handleShortOptions st items = Inr st' \<Longrightarrow> parseInv D st'"
proof (induction items arbitrary: st)
  case Nil
  then show ?case by simp
next
  case (Cons c items)
  from Cons.prems(2) obtain st1 b where
    h: "handleOption st [c] [] False None = Inr (st1, b)"
    and r: "handleShortOptions st1 items = Inr st'"
    by (auto split: sum.splits)
  from handleOption_inv [OF Cons.prems(1) h] r Cons.IH show ?case by blast
qed

lemma handleArguments_inv:
  assumes "parseInv D st" "handleArguments st args = Inr st'"
  shows "parseInv D st'"
proof -
  from assms(2) have "currentCommand st' = currentCommand st \<and> ps_options st' = ps_options st
      \<and> res_options st' = res_options st"
    by (auto simp: handleArguments_def Let_def split: if_splits)
  with assms(1) show ?thesis by (simp add: parseInv_def)
qed

lemma parseLoop_inv:
  "parseInv D st \<Longrightarrow> parseLoop st items = Inr st' \<Longrightarrow> parseInv D st'"
proof (induction st items rule: parseLoop.induct)
  case (1 st)
  then show ?case by simp
next
  case (2 st item rest)
  let ?sub = "valueOr defaultCommand (subcommands (currentCommand st)) item"
  have sub: "set (declaredOptions ?sub) \<subseteq> D"
    using declaredOptions_value [of "currentCommand st" item] "2.prems"(1)
    by (auto simp: parseInv_def)
  consider
      (c_command) "\<not> haveStartedPositionals st \<and> contains (subcommands (currentCommand st)) item"
    | (c_alias) "\<not> (\<not> haveStartedPositionals st \<and> contains (subcommands (currentCommand st)) item)"
        "\<not> haveStartedPositionals st \<and> contains (commandAliases (currentCommand st)) item"
    | (c_dashes) "\<not> (\<not> haveStartedPositionals st \<and> contains (subcommands (currentCommand st)) item)"
        "\<not> (\<not> haveStartedPositionals st \<and> contains (commandAliases (currentCommand st)) item)"
        "item = ''--''"
    | (c_long) "\<not> (\<not> haveStartedPositionals st \<and> contains (subcommands (currentCommand st)) item)"
        "\<not> (\<not> haveStartedPositionals st \<and> contains (commandAliases (currentCommand st)) item)"
        "item \<noteq> ''--''" "take 2 item = ''--''"
    | (c_short) "\<not> (\<not> haveStartedPositionals st \<and> contains (subcommands (currentCommand st)) item)"
        "\<not> (\<not> haveStartedPositionals st \<and> contains (commandAliases (currentCommand st)) item)"
        "item \<noteq> ''--''" "take 2 item \<noteq> ''--''" "take 1 item = ''-''"
    | (c_positional) "\<not> (\<not> haveStartedPositionals st \<and> contains (subcommands (currentCommand st)) item)"
        "\<not> (\<not> haveStartedPositionals st \<and> contains (commandAliases (currentCommand st)) item)"
        "item \<noteq> ''--''" "take 2 item \<noteq> ''--''" "take 1 item \<noteq> ''-''"
    by blast
  then show ?case
  proof cases
    case c_command
    have "parseLoop st (item # rest) =
        (case nextCommand st ?sub of Inl e \<Rightarrow> Inl e | Inr st' \<Rightarrow> parseLoop st' rest)"
      by (simp only: parseLoop.simps if_P [OF c_command])
    with "2.prems"(2) obtain st1 where n: "nextCommand st ?sub = Inr st1"
      and l: "parseLoop st1 rest = Inr st'"
      by (auto split: sum.splits)
    from nextCommand_inv [OF "2.prems"(1) sub n] have "parseInv D st1" .
    with "2.IH"(1) [OF c_command n] l show ?thesis by blast
  next
    case c_alias
    have "parseLoop st (item # rest) =
        (case resolveAlias st (valueOr [] (commandAliases (currentCommand st)) item) of
           Inl e \<Rightarrow> Inl e | Inr st' \<Rightarrow> parseLoop st' rest)"
      by (simp only: parseLoop.simps if_not_P [OF c_alias(1)] if_P [OF c_alias(2)])
    with "2.prems"(2) obtain st1 where
      n: "resolveAlias st (valueOr [] (commandAliases (currentCommand st)) item) = Inr st1"
      and l: "parseLoop st1 rest = Inr st'"
      by (auto split: sum.splits)
    from resolveAlias_inv [OF "2.prems"(1) n] have "parseInv D st1" .
    with "2.IH"(2) [OF c_alias n] l show ?thesis by blast
  next
    case c_dashes
    have "parseLoop st (item # rest) = handleArguments st rest"
      by (simp only: parseLoop.simps if_not_P [OF c_dashes(1)] if_not_P [OF c_dashes(2)] if_P [OF c_dashes(3)])
    with "2.prems"(2) have "handleArguments st rest = Inr st'" by simp
    from handleArguments_inv [OF "2.prems"(1) this] show ?thesis .
  next
    case c_long
    have "parseLoop st (item # rest) =
        (case doubleOptionExpression item of
           None \<Rightarrow> Inl (CommandLineException MalformedOption (''Malformed option: '' @ item))
         | Some (name, value, hasValue) \<Rightarrow>
             (case handleOption st name value hasValue (Some (item, rest)) of
                Inl e \<Rightarrow> Inl e
              | Inr (st', consumed) \<Rightarrow> parseLoop st' (if consumed then tl rest else rest)))"
      by (simp only: parseLoop.simps if_not_P [OF c_long(1)] if_not_P [OF c_long(2)]
            if_not_P [OF c_long(3)] if_P [OF c_long(4)])
    with "2.prems"(2) obtain name "value" hasValue st1 consumed where
      m: "doubleOptionExpression item = Some (name, value, hasValue)"
      and h: "handleOption st name value hasValue (Some (item, rest)) = Inr (st1, consumed)"
      and l: "parseLoop st1 (if consumed then tl rest else rest) = Inr st'"
      by (auto split: option.splits sum.splits prod.splits)
    from handleOption_inv [OF "2.prems"(1) h] have "parseInv D st1" .
    with "2.IH"(3) [OF c_long m refl refl h refl] l show ?thesis by auto
  next
    case c_short
    have "parseLoop st (item # rest) =
        (case singleOptionExpression item of
           None \<Rightarrow> Inl (CommandLineException MalformedOption (''Malformed option: '' @ item))
         | Some (captured, value, hasValue) \<Rightarrow>
             (let items = removeQChar (length captured - 1) captured; lastName = items in
              case handleShortOptions st items of
                Inl e \<Rightarrow> Inl e
              | Inr st1 \<Rightarrow>
                  (case handleOption st1 lastName value hasValue (Some (item, rest)) of
                     Inl e \<Rightarrow> Inl e
                   | Inr (st', consumed) \<Rightarrow> parseLoop st' (if consumed then tl rest else rest))))"
      by (simp only: parseLoop.simps if_not_P [OF c_short(1)] if_not_P [OF c_short(2)]
            if_not_P [OF c_short(3)] if_not_P [OF c_short(4)] if_P [OF c_short(5)])
    with "2.prems"(2) obtain captured "value" hasValue st1 st2 consumed where
      m: "singleOptionExpression item = Some (captured, value, hasValue)"
      and s: "handleShortOptions st (removeQChar (length captured - 1) captured) = Inr st1"
      and h: "handleOption st1 (removeQChar (length captured - 1) captured) value hasValue
                (Some (item, rest)) = Inr (st2, consumed)"
      and l: "parseLoop st2 (if consumed then tl rest else rest) = Inr st'"
      by (auto simp: Let_def split: option.splits sum.splits prod.splits)
    from handleShortOptions_inv [OF "2.prems"(1) s] have "parseInv D st1" .
    from handleOption_inv [OF this h] have "parseInv D st2" .
    with "2.IH"(4) [OF c_short m refl refl refl refl s h refl] l show ?thesis by auto
  next
    case c_positional
    have "parseLoop st (item # rest) =
        (case handleArguments st [item] of Inl e \<Rightarrow> Inl e | Inr st' \<Rightarrow> parseLoop st' rest)"
      by (simp only: parseLoop.simps if_not_P [OF c_positional(1)] if_not_P [OF c_positional(2)]
            if_not_P [OF c_positional(3)] if_not_P [OF c_positional(4)]
            if_not_P [OF c_positional(5)])
    with "2.prems"(2) obtain st1 where n: "handleArguments st [item] = Inr st1"
      and l: "parseLoop st1 rest = Inr st'"
      by (auto split: sum.splits)
    from handleArguments_inv [OF "2.prems"(1) n] have "parseInv D st1" .
    with "2.IH"(5) [OF c_positional n] l show ?thesis by blast
  qed
qed

lemma contains_update: "contains (AList.update k v al) k' \<longleftrightarrow> k' = k \<or> contains al k'"
  by (simp add: contains_def AList.update_conv')

lemma fillDefault_keys:
  "fst ` set (fillDefault opt r) \<subseteq> insert (hd (names opt)) (fst ` set r)"
  by (auto simp: fillDefault_def keys_update)

lemma fold_fillDefault_keys:
  "fst ` set (fold fillDefault opts r) \<subseteq> (\<lambda>opt. hd (names opt)) ` set opts \<union> fst ` set r"
proof (induction opts arbitrary: r)
  case Nil
  then show ?case by simp
next
  case (Cons opt opts)
  from Cons [of "fillDefault opt r"] fillDefault_keys [of opt r] show ?case by auto
qed

lemma fillDefault_mono: "contains r k \<Longrightarrow> contains (fillDefault opt r) k"
  by (simp add: fillDefault_def contains_update)

lemma fold_fillDefault_mono: "contains r k \<Longrightarrow> contains (fold fillDefault opts r) k"
  by (induction opts arbitrary: r) (simp_all add: fillDefault_mono)

lemma fillDefault_fills:
  "hasArgument opt \<Longrightarrow> defaultValue opt \<noteq> None \<Longrightarrow> contains (fillDefault opt r) (hd (names opt))"
  by (simp add: fillDefault_def contains_update)

lemma fold_fillDefault_fills:
  "opt \<in> set opts \<Longrightarrow> hasArgument opt \<Longrightarrow> defaultValue opt \<noteq> None
     \<Longrightarrow> contains (fold fillDefault opts r) (hd (names opt))"
proof (induction opts arbitrary: r)
  case Nil
  then show ?case by simp
next
  case (Cons a opts)
  show ?case
  proof (cases "opt = a")
    case True
    with Cons.prems show ?thesis
      by (simp add: fillDefault_fills fold_fillDefault_mono)
  next
    case False
    with Cons show ?thesis by simp
  qed
qed

lemma parseInv_initial: "parseInv D initialState"
  by (simp add: parseInv_def initialState_def defaultCommand_def)

lemma parse_Inr:
  assumes "parse parser arguments = Inr result"
  obtains st0 st application items where
    "nextCommand initialState parser = Inr st0" "arguments = application # items"
    "parseLoop st0 items = Inr st"
    "m_options result = fold fillDefault (map snd (ps_options st)) (res_options st)"
    "m_possibleOptions result = ps_options st"
  using assms by (auto simp: parse_def split: sum.splits list.splits)

text \<open>\<open>parse\<close> is the loop over the items, then the defaults.\<close>

lemma parse_afterLoop:
  "parse parser arguments =
     (case afterLoop parser arguments of
        Inl a \<Rightarrow> Inl a
      | Inr st \<Rightarrow>
          Inr \<lparr>m_options = fold fillDefault (map snd (ps_options st)) (res_options st),
               m_arguments = res_arguments st,
               m_commandChain = res_commandChain st,
               m_possibleOptions = ps_options st,
               m_possiblePositionals = ps_positionals st\<rparr>)"
  by (simp add: parse_def afterLoop_def split: sum.splits list.splits)

lemma afterLoop_Inr:
  assumes "afterLoop parser arguments = Inr st"
  obtains st0 application items where
    "nextCommand initialState parser = Inr st0" "arguments = application # items"
    "parseLoop st0 items = Inr st"
  using assms by (auto simp: afterLoop_def split: sum.splits list.splits)

text \<open>The branches of the loop body.\<close>

lemma parseLoop_command:
  assumes "\<not> haveStartedPositionals st \<and> contains (subcommands (currentCommand st)) item"
  shows "parseLoop st (item # rest) =
     (case nextCommand st (valueOr defaultCommand (subcommands (currentCommand st)) item) of
        Inl e \<Rightarrow> Inl e | Inr st' \<Rightarrow> parseLoop st' rest)"
  by (simp only: parseLoop.simps if_P [OF assms])

lemma parseLoop_alias:
  assumes "\<not> (\<not> haveStartedPositionals st \<and> contains (subcommands (currentCommand st)) item)"
    "\<not> haveStartedPositionals st \<and> contains (commandAliases (currentCommand st)) item"
  shows "parseLoop st (item # rest) =
     (case resolveAlias st (valueOr [] (commandAliases (currentCommand st)) item) of
        Inl e \<Rightarrow> Inl e | Inr st' \<Rightarrow> parseLoop st' rest)"
  by (simp only: parseLoop.simps if_not_P [OF assms(1)] if_P [OF assms(2)])

lemma parseLoop_dashes:
  assumes "\<not> (\<not> haveStartedPositionals st \<and> contains (subcommands (currentCommand st)) item)"
    "\<not> (\<not> haveStartedPositionals st \<and> contains (commandAliases (currentCommand st)) item)"
    "item = ''--''"
  shows "parseLoop st (item # rest) = handleArguments st rest"
  by (simp only: parseLoop.simps if_not_P [OF assms(1)] if_not_P [OF assms(2)] if_P [OF assms(3)])

lemma parseLoop_positional:
  assumes "\<not> (\<not> haveStartedPositionals st \<and> contains (subcommands (currentCommand st)) item)"
    "\<not> (\<not> haveStartedPositionals st \<and> contains (commandAliases (currentCommand st)) item)"
    "item \<noteq> ''--''" "take 1 item \<noteq> ''-''"
  shows "parseLoop st (item # rest) =
     (case handleArguments st [item] of Inl e \<Rightarrow> Inl e | Inr st' \<Rightarrow> parseLoop st' rest)"
proof -
  from assms(4) have "take 2 item \<noteq> ''--''"
    by (cases item) (auto split: list.splits)
  then have t: "(take 2 item = ''--'') = False" by simp
  show ?thesis
    by (simp only: parseLoop.simps t if_not_P [OF assms(1)] if_not_P [OF assms(2)]
          if_not_P [OF assms(3)] if_not_P [OF assms(4)] if_False)
qed

lemma parseLoop_option:
  assumes "isOption st item"
  shows "parseLoop st (item # rest) =
     (case optionOf item of
        None \<Rightarrow> Inl (CommandLineException MalformedOption (''Malformed option: '' @ item))
      | Some (name, value, hasValue) \<Rightarrow>
          (case (if take 2 item = ''--'' then Inr st else handleShortOptions st name) of
             Inl e \<Rightarrow> Inl e
           | Inr st1 \<Rightarrow>
               (case handleOption st1 name value hasValue (Some (item, rest)) of
                  Inl e \<Rightarrow> Inl e
                | Inr (st2, consumed) \<Rightarrow> parseLoop st2 (if consumed then tl rest else rest))))"
proof -
  from assms have
    c: "\<not> (\<not> haveStartedPositionals st \<and> contains (subcommands (currentCommand st)) item)"
    and a: "\<not> (\<not> haveStartedPositionals st \<and> contains (commandAliases (currentCommand st)) item)"
    and d: "item \<noteq> ''--''" and s: "take 1 item = ''-''"
    by (simp_all add: isOption_def)
  show ?thesis
  proof (cases "take 2 item = ''--''")
    case True
    have "parseLoop st (item # rest) =
        (case doubleOptionExpression item of
           None \<Rightarrow> Inl (CommandLineException MalformedOption (''Malformed option: '' @ item))
         | Some (name, value, hasValue) \<Rightarrow>
             (case handleOption st name value hasValue (Some (item, rest)) of
                Inl e \<Rightarrow> Inl e
              | Inr (st', consumed) \<Rightarrow> parseLoop st' (if consumed then tl rest else rest)))"
      by (simp only: parseLoop.simps if_not_P [OF c] if_not_P [OF a] if_not_P [OF d] if_P [OF True])
    with True show ?thesis
      by (simp add: optionOf_def split: option.splits)
  next
    case False
    have "parseLoop st (item # rest) =
        (case singleOptionExpression item of
           None \<Rightarrow> Inl (CommandLineException MalformedOption (''Malformed option: '' @ item))
         | Some (captured, value, hasValue) \<Rightarrow>
             (let items = removeQChar (length captured - 1) captured; lastName = items in
              case handleShortOptions st items of
                Inl e \<Rightarrow> Inl e
              | Inr st1 \<Rightarrow>
                  (case handleOption st1 lastName value hasValue (Some (item, rest)) of
                     Inl e \<Rightarrow> Inl e
                   | Inr (st', consumed) \<Rightarrow> parseLoop st' (if consumed then tl rest else rest))))"
      by (simp only: parseLoop.simps if_not_P [OF c] if_not_P [OF a] if_not_P [OF d]
            if_not_P [OF False] if_P [OF s])
    with False show ?thesis
      by (simp add: optionOf_def Let_def split: option.splits)
  qed
qed

lemma parseLoop_ConsE:
  assumes "parseLoop st (item # rest) = Inr st'"
  obtains
    (c_command) st1 where
      "\<not> haveStartedPositionals st \<and> contains (subcommands (currentCommand st)) item"
      "nextCommand st (valueOr defaultCommand (subcommands (currentCommand st)) item) = Inr st1"
      "parseLoop st1 rest = Inr st'"
  | (c_alias) st1 where
      "\<not> (\<not> haveStartedPositionals st \<and> contains (subcommands (currentCommand st)) item)"
      "\<not> haveStartedPositionals st \<and> contains (commandAliases (currentCommand st)) item"
      "resolveAlias st (valueOr [] (commandAliases (currentCommand st)) item) = Inr st1"
      "parseLoop st1 rest = Inr st'"
  | (c_dashes)
      "\<not> (\<not> haveStartedPositionals st \<and> contains (subcommands (currentCommand st)) item)"
      "\<not> (\<not> haveStartedPositionals st \<and> contains (commandAliases (currentCommand st)) item)"
      "item = ''--''" "handleArguments st rest = Inr st'"
  | (c_option) name "value" hasValue st1 st2 consumed where
      "isOption st item" "optionOf item = Some (name, value, hasValue)"
      "(if take 2 item = ''--'' then Inr st else handleShortOptions st name) = Inr st1"
      "handleOption st1 name value hasValue (Some (item, rest)) = Inr (st2, consumed)"
      "parseLoop st2 (if consumed then tl rest else rest) = Inr st'"
  | (c_positional) st1 where
      "\<not> (\<not> haveStartedPositionals st \<and> contains (subcommands (currentCommand st)) item)"
      "\<not> (\<not> haveStartedPositionals st \<and> contains (commandAliases (currentCommand st)) item)"
      "item \<noteq> ''--''" "take 1 item \<noteq> ''-''"
      "handleArguments st [item] = Inr st1" "parseLoop st1 rest = Inr st'"
proof -
  consider
      (1) "\<not> haveStartedPositionals st \<and> contains (subcommands (currentCommand st)) item"
    | (2) "\<not> (\<not> haveStartedPositionals st \<and> contains (subcommands (currentCommand st)) item)"
        "\<not> haveStartedPositionals st \<and> contains (commandAliases (currentCommand st)) item"
    | (3) "\<not> (\<not> haveStartedPositionals st \<and> contains (subcommands (currentCommand st)) item)"
        "\<not> (\<not> haveStartedPositionals st \<and> contains (commandAliases (currentCommand st)) item)"
        "item = ''--''"
    | (4) "isOption st item"
    | (5) "\<not> (\<not> haveStartedPositionals st \<and> contains (subcommands (currentCommand st)) item)"
        "\<not> (\<not> haveStartedPositionals st \<and> contains (commandAliases (currentCommand st)) item)"
        "item \<noteq> ''--''" "take 1 item \<noteq> ''-''"
    unfolding isOption_def by blast
  then show thesis
  proof cases
    case 1
    from assms obtain st1 where
      "nextCommand st (valueOr defaultCommand (subcommands (currentCommand st)) item) = Inr st1"
      "parseLoop st1 rest = Inr st'"
      unfolding parseLoop_command [OF 1] by (auto split: sum.splits)
    with 1 show thesis by (rule c_command)
  next
    case 2
    from assms obtain st1 where
      "resolveAlias st (valueOr [] (commandAliases (currentCommand st)) item) = Inr st1"
      "parseLoop st1 rest = Inr st'"
      unfolding parseLoop_alias [OF 2] by (auto split: sum.splits)
    with 2 show thesis by (rule c_alias)
  next
    case 3
    from assms have "handleArguments st rest = Inr st'"
      unfolding parseLoop_dashes [OF 3] .
    with 3 show thesis by (rule c_dashes)
  next
    case 4
    from assms obtain name "value" hasValue st1 st2 consumed where
      "optionOf item = Some (name, value, hasValue)"
      "(if take 2 item = ''--'' then Inr st else handleShortOptions st name) = Inr st1"
      "handleOption st1 name value hasValue (Some (item, rest)) = Inr (st2, consumed)"
      "parseLoop st2 (if consumed then tl rest else rest) = Inr st'"
      unfolding parseLoop_option [OF 4]
      by (auto split: option.splits sum.splits prod.splits)
    with 4 show thesis by (rule c_option)
  next
    case 5
    from assms obtain st1 where
      "handleArguments st [item] = Inr st1" "parseLoop st1 rest = Inr st'"
      unfolding parseLoop_positional [OF 5] by (auto split: sum.splits)
    with 5 show thesis by (rule c_positional)
  qed
qed

text \<open>What a call of \<open>handleOption\<close> that returns has done.\<close>

lemma handleOption_value:
  assumes "handleOption st name value hasValue (Some (item, rest)) = Inr (st', consumed)"
  shows "\<exists>opt. map_of (ps_options st) name = Some opt
      \<and> consumed = (\<not> hasValue \<and> hasArgument opt \<and> isArgumentRequired opt)
      \<and> (consumed \<longrightarrow> rest \<noteq> [])
      \<and> st' = st\<lparr>res_options :=
             AList.update (hd (names opt)) (if consumed then hd rest else value) (res_options st)\<rparr>"
  using assms
  by (auto simp: handleOption_def contains_def valueOr_def Let_def
           split: if_splits option.splits list.splits)

lemma handleOption_flag:
  assumes "handleOption st name value hasValue None = Inr (st', consumed)"
  shows "\<exists>opt. map_of (ps_options st) name = Some opt \<and> \<not> consumed
      \<and> st' = st\<lparr>res_options := AList.update (hd (names opt)) value (res_options st)\<rparr>"
  using assms
  by (auto simp: handleOption_def contains_def valueOr_def Let_def
           split: if_splits option.splits)

lemma handleOption_append:
  assumes "handleOption st name value hasValue (Some (item, rest)) = Inr (st', consumed)"
  shows "handleOption st name value hasValue (Some (item, rest @ later)) = Inr (st', consumed)"
  using assms
  by (auto simp: handleOption_def contains_def valueOr_def Let_def
           split: if_splits option.splits list.splits)

text \<open>The steps of the loop keep the table well-formed.\<close>

lemma insertOption_names:
  assumes "\<forall>name opt. map_of table name = Some opt \<longrightarrow> name \<in> set (names opt)"
  shows "\<forall>name opt. map_of (insertOption option table) name = Some opt \<longrightarrow> name \<in> set (names opt)"
proof -
  have "(\<forall>name opt. map_of table name = Some opt \<longrightarrow> name \<in> set (names opt))
      \<Longrightarrow> set ns \<subseteq> set (names option)
      \<Longrightarrow> (\<forall>name opt. map_of (fold (\<lambda>name. AList.update name option) ns table) name = Some opt
             \<longrightarrow> name \<in> set (names opt))" for ns
  proof (induction ns arbitrary: table)
    case Nil
    then show ?case by simp
  next
    case (Cons n ns)
    have "\<forall>name opt. map_of (AList.update n option table) name = Some opt \<longrightarrow> name \<in> set (names opt)"
      using Cons.prems by (auto simp: AList.update_conv')
    from Cons.IH [OF this] Cons.prems(2) show ?case by simp
  qed
  from this [OF assms subset_refl] show ?thesis by (simp add: insertOption_def)
qed

lemma fold_insertOption_names:
  "(\<forall>name opt. map_of table name = Some opt \<longrightarrow> name \<in> set (names opt))
     \<Longrightarrow> (\<forall>name opt. map_of (fold insertOption opts table) name = Some opt
            \<longrightarrow> name \<in> set (names opt))"
proof (induction opts arbitrary: table)
  case Nil
  then show ?case by simp
next
  case (Cons opt opts)
  from Cons.IH [OF insertOption_names [OF Cons.prems]] show ?case by simp
qed

lemma nextCommand_fields:
  assumes "nextCommand st command = Inr st'"
  shows "st' = st\<lparr>ps_options := fold insertOption (cmd_options command) (ps_options st),
       ps_positionals := ps_positionals st @ cmd_arguments command,
       currentCommand := command,
       res_commandChain := res_commandChain st @ [cmd_name command]\<rparr>"
  using assms by (auto simp: nextCommand_def Let_def split: sum.splits)

lemma nextCommand_tableInv:
  assumes "tableInv st" "nextCommand st command = Inr st'"
  shows "tableInv st' \<and> res_options st' = res_options st"
proof -
  note f = nextCommand_fields [OF assms(2)]
  from assms(1) have "\<forall>name opt. map_of (fold insertOption (cmd_options command) (ps_options st)) name
      = Some opt \<longrightarrow> name \<in> set (names opt)"
    unfolding tableInv_def by (rule fold_insertOption_names)
  moreover have "ps_options st' = fold insertOption (cmd_options command) (ps_options st)"
    "res_options st' = res_options st"
    by (subst f, simp)+
  ultimately show ?thesis by (simp add: tableInv_def)
qed

lemma resolveAlias_tableInv:
  "tableInv st \<Longrightarrow> resolveAlias st path = Inr st'
     \<Longrightarrow> tableInv st' \<and> res_options st' = res_options st"
proof (induction path arbitrary: st)
  case Nil
  then show ?case by simp
next
  case (Cons cmd path)
  from Cons.prems(2) obtain st1 where
    n: "nextCommand st (valueOr defaultCommand (subcommands (currentCommand st)) cmd) = Inr st1"
    and r: "resolveAlias st1 path = Inr st'"
    by (auto split: sum.splits)
  from nextCommand_tableInv [OF Cons.prems(1) n] Cons.IH [OF _ r] show ?case by simp
qed

lemma handleArguments_fields:
  assumes "handleArguments st args = Inr st'"
  shows "ps_options st' = ps_options st \<and> res_options st' = res_options st
     \<and> currentCommand st' = currentCommand st"
  using assms by (auto simp: handleArguments_def Let_def split: if_splits)

lemma handleArguments_tableInv:
  "tableInv st \<Longrightarrow> handleArguments st args = Inr st'
     \<Longrightarrow> tableInv st' \<and> res_options st' = res_options st"
  using handleArguments_fields [of st args st'] by (simp add: tableInv_def)

lemma handleShortOptions_fields:
  "handleShortOptions st items = Inr st'
     \<Longrightarrow> ps_options st' = ps_options st \<and> currentCommand st' = currentCommand st
       \<and> haveStartedPositionals st' = haveStartedPositionals st"
proof (induction items arbitrary: st)
  case Nil
  then show ?case by simp
next
  case (Cons c items)
  from Cons.prems obtain st1 b where
    h: "handleOption st [c] [] False None = Inr (st1, b)"
    and r: "handleShortOptions st1 items = Inr st'"
    by (auto split: sum.splits)
  from handleOption_flag [OF h] obtain opt :: Option where
    "st1 = st\<lparr>res_options := AList.update (hd (names opt)) [] (res_options st)\<rparr>" by blast
  then have "ps_options st1 = ps_options st \<and> currentCommand st1 = currentCommand st
       \<and> haveStartedPositionals st1 = haveStartedPositionals st" by simp
  with Cons.IH [OF r] show ?case by simp
qed

text \<open>What the items give.\<close>

lemma givenIn_Cons: "givenIn rest name v \<Longrightarrow> givenIn (item # rest) name v"
  by simp

lemma givenIn_tl: "givenIn (tl rest) name v \<Longrightarrow> givenIn rest name v"
  by (cases rest) simp_all

lemma givenBy_mono:
  "(\<And>name v. givenIn items name v \<Longrightarrow> givenIn items' name v)
     \<Longrightarrow> givenBy D items k v \<Longrightarrow> givenBy D items' k v"
  unfolding givenBy_def by blast

lemma givesOnly_refl: "givesOnly D items r r"
  by (simp add: givesOnly_def)

lemma givesOnly_same: "r' = r \<Longrightarrow> givesOnly D items r r'"
  by (simp add: givesOnly_def)

lemma givesOnly_trans:
  assumes "givesOnly D items1 r r'" "givesOnly D items2 r' r''"
    "\<And>name v. givenIn items1 name v \<Longrightarrow> givenIn items name v"
    "\<And>name v. givenIn items2 name v \<Longrightarrow> givenIn items name v"
  shows "givesOnly D items r r''"
  unfolding givesOnly_def
proof
  fix k
  from assms(1) have 1: "map_of r' k = map_of r k \<or> (\<exists>v. map_of r' k = Some v \<and> givenBy D items1 k v)"
    by (simp add: givesOnly_def)
  from assms(2) have 2: "map_of r'' k = map_of r' k \<or> (\<exists>v. map_of r'' k = Some v \<and> givenBy D items2 k v)"
    by (simp add: givesOnly_def)
  from 2 show "map_of r'' k = map_of r k \<or> (\<exists>v. map_of r'' k = Some v \<and> givenBy D items k v)"
  proof
    assume e: "map_of r'' k = map_of r' k"
    from 1 show ?thesis
    proof
      assume "map_of r' k = map_of r k"
      with e show ?thesis by simp
    next
      assume "\<exists>v. map_of r' k = Some v \<and> givenBy D items1 k v"
      then obtain v where "map_of r' k = Some v" "givenBy D items1 k v" by blast
      with e assms(3) have "map_of r'' k = Some v \<and> givenBy D items k v"
        by (auto intro: givenBy_mono)
      then show ?thesis by blast
    qed
  next
    assume "\<exists>v. map_of r'' k = Some v \<and> givenBy D items2 k v"
    then obtain v where "map_of r'' k = Some v" "givenBy D items2 k v" by blast
    with assms(4) have "map_of r'' k = Some v \<and> givenBy D items k v"
      by (auto intro: givenBy_mono)
    then show ?thesis by blast
  qed
qed

lemma givesOnly_update:
  assumes "opt \<in> D" "name \<in> set (names opt)" "givenIn items name v"
  shows "givesOnly D items r (AList.update (hd (names opt)) v r)"
  unfolding givesOnly_def
proof
  fix k
  show "map_of (AList.update (hd (names opt)) v r) k = map_of r k
      \<or> (\<exists>v'. map_of (AList.update (hd (names opt)) v r) k = Some v' \<and> givenBy D items k v')"
  proof (cases "k = hd (names opt)")
    case True
    with assms have "map_of (AList.update (hd (names opt)) v r) k = Some v \<and> givenBy D items k v"
      by (auto simp: AList.update_conv' givenBy_def)
    then show ?thesis by blast
  next
    case False
    then show ?thesis by (simp add: AList.update_conv')
  qed
qed

lemma table_entry:
  assumes "parseInv D st" "tableInv st" "map_of (ps_options st) name = Some opt"
  shows "opt \<in> D \<and> name \<in> set (names opt)"
proof -
  from assms(3) have "opt \<in> snd ` set (ps_options st)" by (force dest: map_of_SomeD)
  with assms(1) have "opt \<in> D" by (auto simp: parseInv_def)
  with assms(2,3) show ?thesis by (simp add: tableInv_def)
qed

lemma handleShortOptions_given:
  "parseInv D st \<Longrightarrow> tableInv st \<Longrightarrow> handleShortOptions st cs = Inr st'
     \<Longrightarrow> optionOf item = Some (n, value, hasValue) \<Longrightarrow> take 2 item \<noteq> ''--''
     \<Longrightarrow> set cs \<subseteq> set n
     \<Longrightarrow> givesOnly D (item # rest) (res_options st) (res_options st')"
proof (induction cs arbitrary: st)
  case Nil
  then show ?case by (simp add: givesOnly_refl)
next
  case (Cons c cs)
  from Cons.prems(3) obtain st1 b where
    h: "handleOption st [c] [] False None = Inr (st1, b)"
    and r: "handleShortOptions st1 cs = Inr st'"
    by (auto split: sum.splits)
  from handleOption_flag [OF h] obtain opt where
    o: "map_of (ps_options st) [c] = Some opt"
    and s: "st1 = st\<lparr>res_options := AList.update (hd (names opt)) [] (res_options st)\<rparr>"
    by blast
  from table_entry [OF Cons.prems(1,2) o] have d: "opt \<in> D" "[c] \<in> set (names opt)" by simp_all
  from Cons.prems(4,5,6) have "givenAt item rest [c] []"
    by (auto simp: givenAt_def)
  then have g: "givenIn (item # rest) [c] []" by simp
  have r1: "res_options st1 = AList.update (hd (names opt)) [] (res_options st)"
    by (subst s) simp
  from givesOnly_update [OF d g] have 1: "givesOnly D (item # rest) (res_options st) (res_options st1)"
    by (simp add: r1)
  from handleOption_inv [OF Cons.prems(1) h] have i1: "parseInv D st1" .
  have t1: "tableInv st1" using Cons.prems(2) by (subst s) (simp add: tableInv_def)
  from Cons.prems(6) have "set cs \<subseteq> set n" by simp
  from Cons.IH [OF i1 t1 r Cons.prems(4,5) this]
  have 2: "givesOnly D (item # rest) (res_options st1) (res_options st')" .
  from 1 2 show ?case by (rule givesOnly_trans)
qed

lemma handleShortOptions_tableInv:
  "tableInv st \<Longrightarrow> handleShortOptions st cs = Inr st' \<Longrightarrow> tableInv st'"
  using handleShortOptions_fields [of st cs st'] by (simp add: tableInv_def)

lemma givesOnly_mono:
  assumes "givesOnly D items1 r r'" "\<And>name v. givenIn items1 name v \<Longrightarrow> givenIn items name v"
  shows "givesOnly D items r r'"
  unfolding givesOnly_def
proof
  fix k
  from assms(1) have "map_of r' k = map_of r k \<or> (\<exists>v. map_of r' k = Some v \<and> givenBy D items1 k v)"
    by (simp add: givesOnly_def)
  then show "map_of r' k = map_of r k \<or> (\<exists>v. map_of r' k = Some v \<and> givenBy D items k v)"
    using givenBy_mono [of items1 items D k, OF assms(2)] by blast
qed

lemma givenIn_if_tl: "givenIn (if consumed then tl rest else rest) name v \<Longrightarrow> givenIn (item # rest) name v"
  by (cases consumed) (simp_all add: givenIn_tl)

text \<open>
  The loop gives \<open>result.options\<close> only what the items give: every value that it stores
  is stored under the first name of an option of the parser, and the items give this value
  to one of the names of the option.
\<close>

lemma parseLoop_given:
  "parseInv D st \<Longrightarrow> tableInv st \<Longrightarrow> parseLoop st items = Inr st'
     \<Longrightarrow> tableInv st' \<and> givesOnly D items (res_options st) (res_options st')"
proof (induction "length items" arbitrary: st items rule: less_induct)
  case less
  note inv = less.prems(1) and tab = less.prems(2)
  show ?case
  proof (cases items)
    case Nil
    with less.prems show ?thesis by (simp add: givesOnly_refl)
  next
    case (Cons item rest)
    with less.prems(3) have p: "parseLoop st (item # rest) = Inr st'" by simp
    have len: "length rest < length items" using Cons by simp
    from p show ?thesis
    proof (cases rule: parseLoop_ConsE)
      case (c_command st1)
      have "set (declaredOptions (valueOr defaultCommand (subcommands (currentCommand st)) item)) \<subseteq> D"
        using declaredOptions_value [of "currentCommand st" item] inv
        by (auto simp: parseInv_def)
      from nextCommand_inv [OF inv this c_command(2)] have i1: "parseInv D st1" .
      from nextCommand_tableInv [OF tab c_command(2)] have
        t1: "tableInv st1" and r1: "res_options st1 = res_options st" by simp_all
      from less.hyps [OF len i1 t1 c_command(3)] have
        "tableInv st'" "givesOnly D rest (res_options st) (res_options st')"
        by (simp_all add: r1)
      with Cons show ?thesis by (auto intro: givesOnly_mono [where ?items1.0 = rest])
    next
      case (c_alias st1)
      from resolveAlias_inv [OF inv c_alias(3)] have i1: "parseInv D st1" .
      from resolveAlias_tableInv [OF tab c_alias(3)] have
        t1: "tableInv st1" and r1: "res_options st1 = res_options st" by simp_all
      from less.hyps [OF len i1 t1 c_alias(4)] have
        "tableInv st'" "givesOnly D rest (res_options st) (res_options st')"
        by (simp_all add: r1)
      with Cons show ?thesis by (auto intro: givesOnly_mono [where ?items1.0 = rest])
    next
      case c_dashes
      from handleArguments_tableInv [OF tab c_dashes(4)] show ?thesis
        by (simp add: givesOnly_same)
    next
      case (c_option name "value" hasValue st1 st2 consumed)
      have step1: "parseInv D st1 \<and> tableInv st1
          \<and> givesOnly D (item # rest) (res_options st) (res_options st1)"
      proof (cases "take 2 item = ''--''")
        case True
        with c_option(3) inv tab show ?thesis by (simp add: givesOnly_refl)
      next
        case False
        with c_option(3) have h: "handleShortOptions st name = Inr st1" by simp
        from handleShortOptions_inv [OF inv h] handleShortOptions_tableInv [OF tab h]
          handleShortOptions_given [OF inv tab h c_option(2) False subset_refl]
        show ?thesis by simp
      qed
      then have i1: "parseInv D st1" and t1: "tableInv st1"
        and g1: "givesOnly D (item # rest) (res_options st) (res_options st1)"
        by simp_all
      from handleOption_value [OF c_option(4)] obtain opt where
        o: "map_of (ps_options st1) name = Some opt"
        and c: "consumed = (\<not> hasValue \<and> hasArgument opt \<and> isArgumentRequired opt)"
        and n: "consumed \<longrightarrow> rest \<noteq> []"
        and s: "st2 = st1\<lparr>res_options :=
             AList.update (hd (names opt)) (if consumed then hd rest else value) (res_options st1)\<rparr>"
        by blast
      from table_entry [OF i1 t1 o] have d: "opt \<in> D" "name \<in> set (names opt)" by simp_all
      have "givenAt item rest name (if consumed then hd rest else value)"
        using c_option(2) c n by (simp add: givenAt_def)
      then have g: "givenIn (item # rest) name (if consumed then hd rest else value)" by simp
      have r2: "res_options st2
          = AList.update (hd (names opt)) (if consumed then hd rest else value) (res_options st1)"
        by (subst s) simp
      from givesOnly_update [OF d g]
      have g2: "givesOnly D (item # rest) (res_options st1) (res_options st2)"
        by (simp add: r2)
      from handleOption_inv [OF i1 c_option(4)] have i2: "parseInv D st2" .
      have t2: "tableInv st2" using t1 by (subst s) (simp add: tableInv_def)
      have "length (if consumed then tl rest else rest) < length items"
        using Cons by (simp add: less_Suc_eq_le)
      from less.hyps [OF this i2 t2 c_option(5)] have
        t': "tableInv st'"
        and g3: "givesOnly D (if consumed then tl rest else rest) (res_options st2) (res_options st')"
        by simp_all
      from g3 have g3': "givesOnly D (item # rest) (res_options st2) (res_options st')"
        by (rule givesOnly_mono) (rule givenIn_if_tl)
      from givesOnly_trans [OF g1 g2] have "givesOnly D (item # rest) (res_options st) (res_options st2)"
        by simp
      from givesOnly_trans [OF this g3'] t' Cons show ?thesis by simp
    next
      case (c_positional st1)
      from handleArguments_inv [OF inv c_positional(5)] have i1: "parseInv D st1" .
      from handleArguments_tableInv [OF tab c_positional(5)] have
        t1: "tableInv st1" and r1: "res_options st1 = res_options st" by simp_all
      from less.hyps [OF len i1 t1 c_positional(6)] have
        "tableInv st'" "givesOnly D rest (res_options st) (res_options st')"
        by (simp_all add: r1)
      with Cons show ?thesis by (auto intro: givesOnly_mono [where ?items1.0 = rest])
    qed
  qed
qed

text \<open>
  Items that the loop has handled without reaching \<open>--\<close> are handled in the same way when
  more items follow them.
\<close>

lemma parseLoop_append:
  "parseLoop st items = Inr st' \<Longrightarrow> ''--'' \<notin> set items
     \<Longrightarrow> parseLoop st (items @ later) = parseLoop st' later"
proof (induction "length items" arbitrary: st items rule: less_induct)
  case less
  show ?case
  proof (cases items)
    case Nil
    with less.prems show ?thesis by simp
  next
    case (Cons item rest)
    with less.prems(1) have p: "parseLoop st (item # rest) = Inr st'" by simp
    have len: "length rest < length items" using Cons by simp
    from less.prems(2) Cons have nd: "''--'' \<notin> set rest" "item \<noteq> ''--''" by auto
    from p show ?thesis
    proof (cases rule: parseLoop_ConsE)
      case (c_command st1)
      from less.hyps [OF len c_command(3) nd(1)] c_command(2) Cons show ?thesis
        by (simp add: parseLoop_command [OF c_command(1)] del: parseLoop.simps)
    next
      case (c_alias st1)
      from less.hyps [OF len c_alias(4) nd(1)] c_alias(3) Cons show ?thesis
        by (simp add: parseLoop_alias [OF c_alias(1,2)] del: parseLoop.simps)
    next
      case c_dashes
      with nd show ?thesis by simp
    next
      case (c_option name "value" hasValue st1 st2 consumed)
      from handleOption_value [OF c_option(4)] have n: "consumed \<longrightarrow> rest \<noteq> []" by blast
      then have e: "(if consumed then tl (rest @ later) else rest @ later)
          = (if consumed then tl rest else rest) @ later"
        by (cases rest) auto
      have "length (if consumed then tl rest else rest) < length items"
        using Cons by (simp add: less_Suc_eq_le)
      moreover have "''--'' \<notin> set (if consumed then tl rest else rest)"
        using nd(1) by (cases rest) auto
      ultimately have "parseLoop st2 ((if consumed then tl rest else rest) @ later)
          = parseLoop st' later"
        using less.hyps c_option(5) by blast
      with e have "parseLoop st2 (if consumed then tl (rest @ later) else rest @ later)
          = parseLoop st' later" by simp
      with c_option(2,3) handleOption_append [OF c_option(4), of later] Cons show ?thesis
        by (simp add: parseLoop_option [OF c_option(1)] del: parseLoop.simps)
    next
      case (c_positional st1)
      from less.hyps [OF len c_positional(6) nd(1)] c_positional(5) Cons show ?thesis
        by (simp add: parseLoop_positional [OF c_positional(1,2,3,4)] del: parseLoop.simps)
    qed
  qed
qed

text \<open>What the loop of the defaults leaves under a key.\<close>

lemma fillDefault_map_of:
  "map_of (fillDefault a r) k =
     (if k = hd (names a) \<and> map_of r k = None \<and> hasArgument a \<and> defaultValue a \<noteq> None
      then defaultValue a else map_of r k)"
  by (auto simp: fillDefault_def contains_def AList.update_conv')

lemma fold_fillDefault_map_of:
  "map_of (fold fillDefault opts r) k =
     (case map_of r k of
        Some v \<Rightarrow> Some v
      | None \<Rightarrow>
          (case find (\<lambda>opt. hd (names opt) = k \<and> hasArgument opt \<and> defaultValue opt \<noteq> None) opts of
             None \<Rightarrow> None
           | Some opt \<Rightarrow> defaultValue opt))"
proof (induction opts arbitrary: r)
  case Nil
  then show ?case by (simp split: option.splits)
next
  case (Cons a opts)
  show ?case
    by (auto simp: Cons.IH fillDefault_map_of split: option.splits)
qed

lemma givenIn_if_tl_rest:
  "givenIn (if consumed then tl rest else rest) name v \<Longrightarrow> givenIn rest name v"
  by (cases consumed) (simp_all add: givenIn_tl)

lemma tableInv_initial: "tableInv initialState"
  by (simp add: tableInv_def initialState_def)

text \<open>The invariants hold when the loop starts and when it ends, and the loop starts with
  no option value.\<close>

lemma nextCommand_initial:
  assumes "nextCommand initialState parser = Inr st0"
  shows "parseInv (set (declaredOptions parser)) st0 \<and> tableInv st0 \<and> res_options st0 = []"
proof -
  from nextCommand_inv [OF parseInv_initial _ assms, of "set (declaredOptions parser)"]
  have "parseInv (set (declaredOptions parser)) st0" by simp
  moreover from nextCommand_tableInv [OF tableInv_initial assms]
  have "tableInv st0 \<and> res_options st0 = []" by (simp add: initialState_def)
  ultimately show ?thesis by simp
qed

lemma afterLoop_inv:
  assumes "afterLoop parser arguments = Inr st"
  shows "parseInv (set (declaredOptions parser)) st \<and> tableInv st
     \<and> givesOnly (set (declaredOptions parser)) (tl arguments) [] (res_options st)"
proof -
  from assms obtain st0 application items where
    n: "nextCommand initialState parser = Inr st0"
    and a: "arguments = application # items"
    and l: "parseLoop st0 items = Inr st"
    by (rule afterLoop_Inr)
  from nextCommand_initial [OF n] have
    i0: "parseInv (set (declaredOptions parser)) st0" and t0: "tableInv st0"
    and r0: "res_options st0 = []"
    by simp_all
  from parseLoop_inv [OF i0 l] parseLoop_given [OF i0 t0 l] a r0 show ?thesis by simp
qed

text \<open>
  A lookup in the result sees a value that the items give, or what the defaults give.
\<close>

lemma parse_given_or_default:
  assumes "parse parser arguments = Inr result"
  shows "(\<exists>v. map_of (m_options result) k = Some v
            \<and> givenBy (set (declaredOptions parser)) (tl arguments) k v)
     \<or> map_of (m_options result) k = defaultFor (m_possibleOptions result) k"
proof -
  from assms obtain st where
    a: "afterLoop parser arguments = Inr st"
    and o: "m_options result = fold fillDefault (map snd (ps_options st)) (res_options st)"
    and t: "m_possibleOptions result = ps_options st"
    by (auto simp: parse_afterLoop split: sum.splits)
  from afterLoop_inv [OF a] have
    "givesOnly (set (declaredOptions parser)) (tl arguments) [] (res_options st)" by simp
  then have "map_of (res_options st) k = None
      \<or> (\<exists>v. map_of (res_options st) k = Some v
            \<and> givenBy (set (declaredOptions parser)) (tl arguments) k v)"
    by (simp add: givesOnly_def)
  then show ?thesis
  proof
    assume "map_of (res_options st) k = None"
    then have "map_of (m_options result) k = defaultFor (m_possibleOptions result) k"
      by (simp add: o t fold_fillDefault_map_of defaultFor_def)
    then show ?thesis ..
  next
    assume "\<exists>v. map_of (res_options st) k = Some v
            \<and> givenBy (set (declaredOptions parser)) (tl arguments) k v"
    then obtain v where "map_of (res_options st) k = Some v"
      "givenBy (set (declaredOptions parser)) (tl arguments) k v" by blast
    then have "map_of (m_options result) k = Some v
        \<and> givenBy (set (declaredOptions parser)) (tl arguments) k v"
      by (simp add: o fold_fillDefault_map_of)
    then show ?thesis by blast
  qed
qed

text \<open>
  An option on the command line, under whichever of its names: a lookup by its first name
  sees its value, or a value that a later item gives.
\<close>

lemma parse_option_stored:
  assumes a: "afterLoop parser (application # pre) = Inr st"
    and nd: "''--'' \<notin> set pre"
    and iso: "isOption st item"
    and p: "parse parser (application # pre @ item # rest) = Inr result"
  shows "\<exists>name value hasValue opt.
      optionOf item = Some (name, value, hasValue)
      \<and> map_of (ps_options st) name = Some opt
      \<and> opt \<in> set (declaredOptions parser) \<and> name \<in> set (names opt)
      \<and> (map_of (m_options result) (hd (names opt))
           = Some (if \<not> hasValue \<and> hasArgument opt \<and> isArgumentRequired opt then hd rest else value)
         \<or> (\<exists>v. map_of (m_options result) (hd (names opt)) = Some v
              \<and> givenBy (set (declaredOptions parser)) rest (hd (names opt)) v))"
proof -
  let ?D = "set (declaredOptions parser)"
  from a obtain st0 where
    n: "nextCommand initialState parser = Inr st0" and l: "parseLoop st0 pre = Inr st"
    by (auto elim: afterLoop_Inr)
  from p n obtain stF where
    lF: "parseLoop st0 (pre @ item # rest) = Inr stF"
    and o: "m_options result = fold fillDefault (map snd (ps_options stF)) (res_options stF)"
    by (auto elim!: parse_Inr)
  from parseLoop_append [OF l nd, of "item # rest"] lF
  have step: "parseLoop st (item # rest) = Inr stF" by simp
  from afterLoop_inv [OF a] have i: "parseInv ?D st" and t: "tableInv st" by simp_all
  from step obtain name "value" hasValue st1 st2 consumed where
    oo: "optionOf item = Some (name, value, hasValue)"
    and s1: "(if take 2 item = ''--'' then Inr st else handleShortOptions st name) = Inr st1"
    and h: "handleOption st1 name value hasValue (Some (item, rest)) = Inr (st2, consumed)"
    and l2: "parseLoop st2 (if consumed then tl rest else rest) = Inr stF"
    unfolding parseLoop_option [OF iso]
    by (auto split: option.splits sum.splits prod.splits)
  have st1: "parseInv ?D st1 \<and> tableInv st1 \<and> ps_options st1 = ps_options st"
  proof (cases "take 2 item = ''--''")
    case True
    with s1 i t show ?thesis by simp
  next
    case False
    with s1 have hs: "handleShortOptions st name = Inr st1" by simp
    from handleShortOptions_inv [OF i hs] handleShortOptions_tableInv [OF t hs]
      handleShortOptions_fields [OF hs]
    show ?thesis by simp
  qed
  then have i1: "parseInv ?D st1" and t1: "tableInv st1" and p1: "ps_options st1 = ps_options st"
    by simp_all
  from handleOption_value [OF h] obtain opt where
    e: "map_of (ps_options st1) name = Some opt"
    and c: "consumed = (\<not> hasValue \<and> hasArgument opt \<and> isArgumentRequired opt)"
    and s: "st2 = st1\<lparr>res_options :=
         AList.update (hd (names opt)) (if consumed then hd rest else value) (res_options st1)\<rparr>"
    by blast
  from table_entry [OF i1 t1 e] have d: "opt \<in> ?D" "name \<in> set (names opt)" by simp_all
  have r2: "map_of (res_options st2) (hd (names opt)) = Some (if consumed then hd rest else value)"
    by (subst s) (simp add: AList.update_conv')
  from handleOption_inv [OF i1 h] have i2: "parseInv ?D st2" .
  have t2: "tableInv st2" using t1 by (subst s) (simp add: tableInv_def)
  from parseLoop_given [OF i2 t2 l2] have
    "givesOnly ?D (if consumed then tl rest else rest) (res_options st2) (res_options stF)"
    by simp
  then have "givesOnly ?D rest (res_options st2) (res_options stF)"
    by (rule givesOnly_mono) (rule givenIn_if_tl_rest)
  then have "map_of (res_options stF) (hd (names opt)) = map_of (res_options st2) (hd (names opt))
      \<or> (\<exists>v. map_of (res_options stF) (hd (names opt)) = Some v
            \<and> givenBy ?D rest (hd (names opt)) v)"
    by (simp add: givesOnly_def)
  with r2 c have "map_of (res_options stF) (hd (names opt))
        = Some (if \<not> hasValue \<and> hasArgument opt \<and> isArgumentRequired opt then hd rest else value)
      \<or> (\<exists>v. map_of (res_options stF) (hd (names opt)) = Some v
            \<and> givenBy ?D rest (hd (names opt)) v)"
    by auto
  then have "map_of (m_options result) (hd (names opt))
        = Some (if \<not> hasValue \<and> hasArgument opt \<and> isArgumentRequired opt then hd rest else value)
      \<or> (\<exists>v. map_of (m_options result) (hd (names opt)) = Some v
            \<and> givenBy ?D rest (hd (names opt)) v)"
    by (auto simp: o fold_fillDefault_map_of)
  with oo e p1 d show ?thesis by auto
qed

text \<open>
  When the loop succeeds on items without \<open>--\<close> that are followed by an item with a dash,
  it succeeds on these items alone: the item with a dash is not taken for the value of the
  option before it.
\<close>

lemma handleOption_prefix:
  assumes "handleOption st name value hasValue (Some (item, rest @ later)) = Inr (st', consumed)"
    "later = [] \<or> take 1 (hd later) = ''-''"
  shows "handleOption st name value hasValue (Some (item, rest)) = Inr (st', consumed)
     \<and> (consumed \<longrightarrow> rest \<noteq> [])"
proof (cases rest)
  case Nil
  with assms show ?thesis
    by (cases later)
       (auto simp: handleOption_def contains_def valueOr_def Let_def split: if_splits option.splits)
next
  case (Cons following rest')
  with assms(1) show ?thesis
    by (auto simp: handleOption_def contains_def valueOr_def Let_def split: if_splits option.splits)
qed

lemma parseLoop_prefix:
  "parseLoop st (items @ later) = Inr st' \<Longrightarrow> ''--'' \<notin> set items
     \<Longrightarrow> later = [] \<or> take 1 (hd later) = ''-''
     \<Longrightarrow> \<exists>st1. parseLoop st items = Inr st1"
proof (induction "length items" arbitrary: st items rule: less_induct)
  case less
  show ?case
  proof (cases items)
    case Nil
    then show ?thesis by simp
  next
    case (Cons item rest)
    with less.prems(1) have p: "parseLoop st (item # (rest @ later)) = Inr st'" by simp
    have len: "length rest < length items" using Cons by simp
    from less.prems(2) Cons have nd: "''--'' \<notin> set rest" "item \<noteq> ''--''" by auto
    note lt = less.prems(3)
    from p show ?thesis
    proof (cases rule: parseLoop_ConsE)
      case (c_command st1)
      from less.hyps [OF len c_command(3) nd(1) lt] c_command(2) Cons show ?thesis
        by (simp add: parseLoop_command [OF c_command(1)] del: parseLoop.simps)
    next
      case (c_alias st1)
      from less.hyps [OF len c_alias(4) nd(1) lt] c_alias(3) Cons show ?thesis
        by (simp add: parseLoop_alias [OF c_alias(1,2)] del: parseLoop.simps)
    next
      case c_dashes
      with nd show ?thesis by simp
    next
      case (c_option name "value" hasValue st1 st2 consumed)
      from handleOption_prefix [OF c_option(4) lt] have
        h: "handleOption st1 name value hasValue (Some (item, rest)) = Inr (st2, consumed)"
        and n: "consumed \<longrightarrow> rest \<noteq> []"
        by simp_all
      from n have e: "(if consumed then tl (rest @ later) else rest @ later)
          = (if consumed then tl rest else rest) @ later"
        by (cases rest) auto
      have "length (if consumed then tl rest else rest) < length items"
        using Cons by (simp add: less_Suc_eq_le)
      moreover have "''--'' \<notin> set (if consumed then tl rest else rest)"
        using nd(1) by (cases rest) auto
      moreover from c_option(5) e
      have "parseLoop st2 ((if consumed then tl rest else rest) @ later) = Inr st'" by simp
      ultimately have "\<exists>st3. parseLoop st2 (if consumed then tl rest else rest) = Inr st3"
        using less.hyps lt by blast
      with c_option(2,3) h Cons show ?thesis
        by (simp add: parseLoop_option [OF c_option(1)] del: parseLoop.simps)
    next
      case (c_positional st1)
      from less.hyps [OF len c_positional(6) nd(1) lt] c_positional(5) Cons show ?thesis
        by (simp add: parseLoop_positional [OF c_positional(1,2,3,4)] del: parseLoop.simps)
    qed
  qed
qed

lemma parse_prefix:
  assumes "parse parser (application # pre @ item # rest) = Inr result"
    "''--'' \<notin> set pre" "take 1 item = ''-''"
  shows "\<exists>st. afterLoop parser (application # pre) = Inr st"
proof -
  from assms(1) obtain st0 stF where
    n: "nextCommand initialState parser = Inr st0"
    and l: "parseLoop st0 (pre @ item # rest) = Inr stF"
    by (auto elim!: parse_Inr)
  from parseLoop_prefix [OF l assms(2)] assms(3) obtain st where "parseLoop st0 pre = Inr st"
    by auto
  with n show ?thesis by (simp add: afterLoop_def)
qed

text \<open>
  Claim C10. Let \<open>parse\<close> succeed.

  \<^enum> Every key of the options of the result is the first declared name of an option of
    the parser.

  \<^enum> Every option of the table that has an argument and a default value has a value
    under its first name.

  \<^enum> Under every key, a lookup sees a value that the items give to one of the names of
    an option of the parser with this first name, or it sees what the defaults give: the
    default value of the first option of the table with this first name, an argument and a
    default value, and nothing when there is no such option.

  \<^enum> Let the items before an item contain no \<open>--\<close> and lead the loop to a state in which
    the item is taken for an option. Then the name that the item is written with, which
    may be any of the names of the option, is in the table, and a lookup by the first name
    of the option found there sees the value of the item (what follows its \<open>=\<close>, or the
    next item when the option requires an argument and there is no \<open>=\<close>), unless the
    items after it give a name of an option with the same first name a value, and then it
    sees a value that they give.

  \<^enum> The items before an item that starts with a dash, when they contain no \<open>--\<close>, lead
    the loop to such a state.

  \<^enum> Each call of \<open>handleOption\<close> that succeeds looks the typed name up in the table and
    stores the value (the given one, or the next item when it was consumed) under the first
    name of the option found, whichever of its names was typed.
\<close>

theorem parse_options_keyed_by_first_name:
  "(parse parser arguments = Inr result \<longrightarrow>
      (\<forall>k \<in> fst ` set (m_options result).
          \<exists>opt \<in> set (declaredOptions parser). k = hd (names opt))
      \<and> (\<forall>opt \<in> snd ` set (m_possibleOptions result).
            hasArgument opt \<longrightarrow> defaultValue opt \<noteq> None
              \<longrightarrow> contains (m_options result) (hd (names opt)))
      \<and> (\<forall>k. (\<exists>v. map_of (m_options result) k = Some v
                  \<and> givenBy (set (declaredOptions parser)) (tl arguments) k v)
            \<or> map_of (m_options result) k = defaultFor (m_possibleOptions result) k))
   \<and> (afterLoop parser (application # pre) = Inr reached \<and> ''--'' \<notin> set pre
        \<and> isOption reached item
        \<and> parse parser (application # pre @ item # rest) = Inr result' \<longrightarrow>
        (\<exists>typed given hasGiven opt.
            optionOf item = Some (typed, given, hasGiven)
          \<and> map_of (ps_options reached) typed = Some opt
          \<and> opt \<in> set (declaredOptions parser) \<and> typed \<in> set (names opt)
          \<and> (map_of (m_options result') (hd (names opt))
                = Some (if \<not> hasGiven \<and> hasArgument opt \<and> isArgumentRequired opt
                        then hd rest else given)
              \<or> (\<exists>v. map_of (m_options result') (hd (names opt)) = Some v
                    \<and> givenBy (set (declaredOptions parser)) rest (hd (names opt)) v))))
   \<and> (parse parser (application # pre @ item # rest) = Inr result' \<and> ''--'' \<notin> set pre
        \<and> take 1 item = ''-'' \<longrightarrow>
        (\<exists>st. afterLoop parser (application # pre) = Inr st))
   \<and> (handleOption st name value hasValue it = Inr (st', consumed) \<longrightarrow>
        (\<exists>opt v. map_of (ps_options st) name = Some opt
           \<and> res_options st' = AList.update (hd (names opt)) v (res_options st)
           \<and> (if consumed then \<exists>prev rest. it = Some (prev, v # rest) else v = value)))"
proof -
  have keys: "parse parser arguments = Inr result \<longrightarrow>
      (\<forall>k \<in> fst ` set (m_options result).
          \<exists>opt \<in> set (declaredOptions parser). k = hd (names opt))
      \<and> (\<forall>opt \<in> snd ` set (m_possibleOptions result).
            hasArgument opt \<longrightarrow> defaultValue opt \<noteq> None
              \<longrightarrow> contains (m_options result) (hd (names opt)))
      \<and> (\<forall>k. (\<exists>v. map_of (m_options result) k = Some v
                  \<and> givenBy (set (declaredOptions parser)) (tl arguments) k v)
            \<or> map_of (m_options result) k = defaultFor (m_possibleOptions result) k)"
  proof
    assume p: "parse parser arguments = Inr result"
    let ?D = "set (declaredOptions parser)"
    from p obtain st0 st application items where
      n: "nextCommand initialState parser = Inr st0"
      and l: "parseLoop st0 items = Inr st"
      and o: "m_options result = fold fillDefault (map snd (ps_options st)) (res_options st)"
      and t: "m_possibleOptions result = ps_options st"
      by (rule parse_Inr)
    from nextCommand_inv [OF parseInv_initial _ n, of ?D] have "parseInv ?D st0" by simp
    from parseLoop_inv [OF this l] have inv: "parseInv ?D st" .
    have 1: "\<forall>k \<in> fst ` set (m_options result). \<exists>opt \<in> ?D. k = hd (names opt)"
    proof
      fix k assume "k \<in> fst ` set (m_options result)"
      with o fold_fillDefault_keys [of "map snd (ps_options st)" "res_options st"]
      have "k \<in> (\<lambda>opt. hd (names opt)) ` snd ` set (ps_options st) \<or> k \<in> fst ` set (res_options st)"
        by auto
      with inv show "\<exists>opt \<in> ?D. k = hd (names opt)"
        unfolding parseInv_def by blast
    qed
    have 2: "\<forall>opt \<in> snd ` set (m_possibleOptions result).
            hasArgument opt \<longrightarrow> defaultValue opt \<noteq> None
              \<longrightarrow> contains (m_options result) (hd (names opt))"
    proof (intro ballI impI)
      fix opt
      assume "opt \<in> snd ` set (m_possibleOptions result)" "hasArgument opt" "defaultValue opt \<noteq> None"
      with t have "opt \<in> set (map snd (ps_options st))" by simp
      from fold_fillDefault_fills [OF this \<open>hasArgument opt\<close> \<open>defaultValue opt \<noteq> None\<close>] o
      show "contains (m_options result) (hd (names opt))" by simp
    qed
    have 3: "\<forall>k. (\<exists>v. map_of (m_options result) k = Some v
                  \<and> givenBy (set (declaredOptions parser)) (tl arguments) k v)
            \<or> map_of (m_options result) k = defaultFor (m_possibleOptions result) k"
      using parse_given_or_default [OF p] by blast
    from 1 2 3 show "(\<forall>k \<in> fst ` set (m_options result).
          \<exists>opt \<in> set (declaredOptions parser). k = hd (names opt))
      \<and> (\<forall>opt \<in> snd ` set (m_possibleOptions result).
            hasArgument opt \<longrightarrow> defaultValue opt \<noteq> None
              \<longrightarrow> contains (m_options result) (hd (names opt)))
      \<and> (\<forall>k. (\<exists>v. map_of (m_options result) k = Some v
                  \<and> givenBy (set (declaredOptions parser)) (tl arguments) k v)
            \<or> map_of (m_options result) k = defaultFor (m_possibleOptions result) k)"
      by (intro conjI)
  qed
  have stored: "afterLoop parser (application # pre) = Inr reached \<and> ''--'' \<notin> set pre
        \<and> isOption reached item
        \<and> parse parser (application # pre @ item # rest) = Inr result' \<longrightarrow>
        (\<exists>typed given hasGiven opt.
            optionOf item = Some (typed, given, hasGiven)
          \<and> map_of (ps_options reached) typed = Some opt
          \<and> opt \<in> set (declaredOptions parser) \<and> typed \<in> set (names opt)
          \<and> (map_of (m_options result') (hd (names opt))
                = Some (if \<not> hasGiven \<and> hasArgument opt \<and> isArgumentRequired opt
                        then hd rest else given)
              \<or> (\<exists>v. map_of (m_options result') (hd (names opt)) = Some v
                    \<and> givenBy (set (declaredOptions parser)) rest (hd (names opt)) v)))"
    using parse_option_stored [of parser application pre reached item rest result'] by blast
  have prefix: "parse parser (application # pre @ item # rest) = Inr result' \<and> ''--'' \<notin> set pre
        \<and> take 1 item = ''-'' \<longrightarrow>
        (\<exists>st. afterLoop parser (application # pre) = Inr st)"
    using parse_prefix [of parser application pre item rest result'] by blast
  have call: "handleOption st name value hasValue it = Inr (st', consumed) \<longrightarrow>
        (\<exists>opt v. map_of (ps_options st) name = Some opt
           \<and> res_options st' = AList.update (hd (names opt)) v (res_options st)
           \<and> (if consumed then \<exists>prev rest. it = Some (prev, v # rest) else v = value))"
  proof
    assume "handleOption st name value hasValue it = Inr (st', consumed)"
    from handleOption_stores [OF this]
    show "\<exists>opt v. map_of (ps_options st) name = Some opt
           \<and> res_options st' = AList.update (hd (names opt)) v (res_options st)
           \<and> (if consumed then \<exists>prev rest. it = Some (prev, v # rest) else v = value)"
      by blast
  qed
  from keys stored prefix call show ?thesis by (intro conjI)
qed

lemma example_parse: "parse exampleParser exampleArguments = Inr exampleResult"
  by code_simp

lemma example_parse_separate:
  "parse exampleParser [''ralph'', ''install'', ''--g'', ''dev'', ''foo''] = Inr exampleResult"
  by code_simp

lemma example_parse_first_name:
  "parse exampleParser [''ralph'', ''install'', ''--group=dev'', ''foo''] = Inr exampleResult"
  by code_simp

lemma example_parse_sources:
  "parse exampleParser [''ralph'', ''sources'', ''list''] = Inr sourcesResult"
  by code_simp

lemma example_afterLoop: "afterLoop exampleParser [''ralph'', ''install''] = Inr installState"
  by code_simp

lemma example_isOption: "isOption installState ''--g=dev''" "isOption installState ''--g''"
  by (simp_all add: isOption_def installState_def installCommand_def contains_def)

lemma example_handleOption:
  "handleOption exampleState ''g'' [] False (Some (''-g'', [''dev''])) =
     Inr (exampleState\<lparr>res_options := [(''group'', ''dev'')]\<rparr>, True)"
  by (simp add: handleOption_def contains_def valueOr_def groupOption_def initialState_def
        exampleState_def Let_def)

lemma example_nothing_given:
  "\<not> givenBy (set (declaredOptions exampleParser)) [''sources'', ''list''] ''database'' v"
  by (simp add: givenBy_def givenAt_def optionOf_def singleOptionExpression_def)

theorem parse_options_keyed_by_first_name_witness:
  "parse exampleParser exampleArguments = Inr exampleResult
   \<and> (\<exists>opt. opt \<in> set (declaredOptions exampleParser) \<and> ''group'' = hd (names opt))
   \<and> contains (m_options exampleResult) (hd (names groupOption))
   \<and> afterLoop exampleParser [''ralph'', ''install''] = Inr installState
   \<and> ''--'' \<notin> set [''install'']
   \<and> isOption installState ''--g=dev''
   \<and> parse exampleParser (''ralph'' # [''install''] @ ''--g=dev'' # [''foo'']) = Inr exampleResult
   \<and> (\<exists>typed given hasGiven opt.
          optionOf ''--g=dev'' = Some (typed, given, hasGiven)
        \<and> map_of (ps_options installState) typed = Some opt
        \<and> opt \<in> set (declaredOptions exampleParser) \<and> typed \<in> set (names opt)
        \<and> (map_of (m_options exampleResult) (hd (names opt))
              = Some (if \<not> hasGiven \<and> hasArgument opt \<and> isArgumentRequired opt
                      then hd [''foo''] else given)
            \<or> (\<exists>v. map_of (m_options exampleResult) (hd (names opt)) = Some v
                  \<and> givenBy (set (declaredOptions exampleParser)) [''foo''] (hd (names opt)) v)))
   \<and> isOption installState ''--g''
   \<and> parse exampleParser (''ralph'' # [''install''] @ ''--g'' # [''dev'', ''foo'']) = Inr exampleResult
   \<and> (\<exists>typed given hasGiven opt.
          optionOf ''--g'' = Some (typed, given, hasGiven)
        \<and> map_of (ps_options installState) typed = Some opt
        \<and> opt \<in> set (declaredOptions exampleParser) \<and> typed \<in> set (names opt)
        \<and> (map_of (m_options exampleResult) (hd (names opt))
              = Some (if \<not> hasGiven \<and> hasArgument opt \<and> isArgumentRequired opt
                      then hd [''dev'', ''foo''] else given)
            \<or> (\<exists>v. map_of (m_options exampleResult) (hd (names opt)) = Some v
                  \<and> givenBy (set (declaredOptions exampleParser)) [''dev'', ''foo'']
                      (hd (names opt)) v)))
   \<and> take 1 ''--g=dev'' = ''-''
   \<and> (\<exists>st. afterLoop exampleParser (''ralph'' # [''install'']) = Inr st)
   \<and> parse exampleParser [''ralph'', ''sources'', ''list''] = Inr sourcesResult
   \<and> map_of (m_options sourcesResult) ''database''
       = defaultFor (m_possibleOptions sourcesResult) ''database''
   \<and> defaultFor (m_possibleOptions sourcesResult) ''database'' = Some ''project''
   \<and> handleOption exampleState ''g'' [] False (Some (''-g'', [''dev'']))
       = Inr (exampleState\<lparr>res_options := [(''group'', ''dev'')]\<rparr>, True)
   \<and> (\<exists>opt v. map_of (ps_options exampleState) ''g'' = Some opt
         \<and> res_options (exampleState\<lparr>res_options := [(''group'', ''dev'')]\<rparr>)
             = AList.update (hd (names opt)) v (res_options exampleState)
         \<and> (\<exists>prev rest. Some (''-g'', [''dev'']) = Some (prev, v # rest)))"
proof -
  have nd: "''--'' \<notin> set [''install'']" by simp
  have dash: "take 1 ''--g=dev'' = ''-''" by simp
  have p1: "parse exampleParser (''ralph'' # [''install''] @ ''--g=dev'' # [''foo'']) = Inr exampleResult"
    using example_parse by (simp add: exampleArguments_def)
  have p2: "parse exampleParser (''ralph'' # [''install''] @ ''--g'' # [''dev'', ''foo'']) = Inr exampleResult"
    using example_parse_separate by simp
  note t = parse_options_keyed_by_first_name [of exampleParser exampleArguments exampleResult
      "''ralph''" "[''install'']" installState "''--g=dev''" "[''foo'']" exampleResult
      exampleState "''g''" "[]" False "Some (''-g'', [''dev''])"
      "exampleState\<lparr>res_options := [(''group'', ''dev'')]\<rparr>" True]
  from t example_parse have
    keys: "\<forall>k \<in> fst ` set (m_options exampleResult).
             \<exists>opt \<in> set (declaredOptions exampleParser). k = hd (names opt)"
    and dflt: "\<forall>opt \<in> snd ` set (m_possibleOptions exampleResult).
             hasArgument opt \<longrightarrow> defaultValue opt \<noteq> None
               \<longrightarrow> contains (m_options exampleResult) (hd (names opt))"
    by blast+
  have "''group'' \<in> fst ` set (m_options exampleResult)"
    by (simp add: exampleResult_def)
  with keys have 1: "\<exists>opt. opt \<in> set (declaredOptions exampleParser) \<and> ''group'' = hd (names opt)"
    by blast
  have "groupOption \<in> snd ` set (m_possibleOptions exampleResult)"
    by (simp add: exampleResult_def)
  moreover have "hasArgument groupOption" "defaultValue groupOption \<noteq> None"
    by (simp_all add: groupOption_def)
  ultimately have 2: "contains (m_options exampleResult) (hd (names groupOption))"
    using dflt by blast
  from t example_afterLoop nd example_isOption(1) p1 have
    3: "\<exists>typed given hasGiven opt.
          optionOf ''--g=dev'' = Some (typed, given, hasGiven)
        \<and> map_of (ps_options installState) typed = Some opt
        \<and> opt \<in> set (declaredOptions exampleParser) \<and> typed \<in> set (names opt)
        \<and> (map_of (m_options exampleResult) (hd (names opt))
              = Some (if \<not> hasGiven \<and> hasArgument opt \<and> isArgumentRequired opt
                      then hd [''foo''] else given)
            \<or> (\<exists>v. map_of (m_options exampleResult) (hd (names opt)) = Some v
                  \<and> givenBy (set (declaredOptions exampleParser)) [''foo''] (hd (names opt)) v))"
    by blast
  from t p1 nd dash have 4: "\<exists>st. afterLoop exampleParser (''ralph'' # [''install'']) = Inr st"
    by blast
  from t example_handleOption have
    5: "\<exists>opt v. map_of (ps_options exampleState) ''g'' = Some opt
         \<and> res_options (exampleState\<lparr>res_options := [(''group'', ''dev'')]\<rparr>)
             = AList.update (hd (names opt)) v (res_options exampleState)
         \<and> (\<exists>prev rest. Some (''-g'', [''dev'']) = Some (prev, v # rest))"
    by (simp only: simp_thms if_True)
  note t' = parse_options_keyed_by_first_name [of exampleParser "[''ralph'', ''sources'', ''list'']"
      sourcesResult "''ralph''" "[''install'']" installState "''--g''" "[''dev'', ''foo'']"
      exampleResult]
  from t' example_afterLoop nd example_isOption(2) p2 have
    6: "\<exists>typed given hasGiven opt.
          optionOf ''--g'' = Some (typed, given, hasGiven)
        \<and> map_of (ps_options installState) typed = Some opt
        \<and> opt \<in> set (declaredOptions exampleParser) \<and> typed \<in> set (names opt)
        \<and> (map_of (m_options exampleResult) (hd (names opt))
              = Some (if \<not> hasGiven \<and> hasArgument opt \<and> isArgumentRequired opt
                      then hd [''dev'', ''foo''] else given)
            \<or> (\<exists>v. map_of (m_options exampleResult) (hd (names opt)) = Some v
                  \<and> givenBy (set (declaredOptions exampleParser)) [''dev'', ''foo'']
                      (hd (names opt)) v))"
    by blast
  from t' example_parse_sources have
    "(\<exists>v. map_of (m_options sourcesResult) ''database'' = Some v
          \<and> givenBy (set (declaredOptions exampleParser)) (tl [''ralph'', ''sources'', ''list''])
               ''database'' v)
     \<or> map_of (m_options sourcesResult) ''database''
         = defaultFor (m_possibleOptions sourcesResult) ''database''"
    by blast
  with example_nothing_given have
    7: "map_of (m_options sourcesResult) ''database''
         = defaultFor (m_possibleOptions sourcesResult) ''database''"
    by simp
  have 8: "defaultFor (m_possibleOptions sourcesResult) ''database'' = Some ''project''"
    by (simp add: defaultFor_def sourcesResult_def databaseOption_def)
  from example_parse 1 2 example_afterLoop nd example_isOption(1) p1 3 example_isOption(2) p2 6
    dash 4 example_parse_sources 7 8 example_handleOption 5
  show ?thesis by (intro conjI)
qed

end
